theory Spec2Isabelle
  imports Main "HOL-Library.Sublist"
begin

section \<open>Gopher-Dash: the game loop of \<open>main.go\<close>\<close>

text \<open>
  The program is a Bubble Tea application: one \<open>model\<close> value, one \<open>Update\<close> function that
  consumes a message and returns the next model with a command for the runtime. The embedding
  follows \<open>main.go\<close> function by function. What the Go code reads from the outside world is an
  explicit argument: the clock (\<open>time.Now()\<close>), the three draws of the random generator and the
  high-score file.

  Go's \<open>int\<close> (64 bits) and \<open>time.Duration\<close> are modelled as integers. Where no bound on the
  operands follows from the program, the wrap-around of the 64-bit arithmetic is written out
  with \<open>wrap64\<close>: the terminal size in \<open>recalcSizes\<close>, which comes from the window-size
  message, and the generation counter and the layout in \<open>restart\<close>. In the gameplay step the
  operands stay far from the 64-bit bounds (the rows are 0 or at least 5, the obstacles are at
  \<open>-1\<close> or beyond) and the arithmetic is written without it. \<open>strconv.Atoi\<close> has its 64-bit
  range check written out. Times are nanoseconds.
\<close>

subsection \<open>Constants\<close>

definition millisecond :: int where
  "millisecond = 1000000"

definition second :: int where
  "second = 1000000000"

definition startFrame :: int where
  "startFrame = 45 * millisecond"

definition cooldownSeconds :: int where
  "cooldownSeconds = 2"

definition gameOverTick :: int where
  "gameOverTick = 250 * millisecond"

definition gravity :: int where
  "gravity = 1"

definition jumpVel :: int where
  "jumpVel = - 4"

definition minGapCells :: int where
  "minGapCells = 4"

text \<open>
  \<open>accelFactor = 0.998\<close> is used in one \<open>float64\<close> product. The nearest double to 0.998 is
  \<open>accelMant / 2^53\<close>.
\<close>

definition accelMant :: nat where
  "accelMant = 8989184856231510"

subsection \<open>Types\<close>

record obstacle =
  ob_x :: int
  ob_typ :: string

record model =
  m_w :: int
  m_h :: int
  gameRows :: int
  gameCols :: int
  frameDur :: int
  tickGen :: int
  dist :: int
  playerY :: int
  velY :: int
  obstacles :: "obstacle list"
  highScore :: int
  gameOver :: bool
  restartAt :: int

text \<open>The messages \<open>Update\<close> distinguishes; a key message carries \<open>msg.String()\<close>.\<close>

datatype msg =
  WindowSizeMsg int int
  | KeyMsg string
  | TickMsg int
  | OtherMsg

text \<open>
  The commands \<open>Update\<close> returns: \<open>nil\<close>, \<open>tea.Quit\<close>, and \<open>tickAfter d gen\<close>, which delivers
  \<open>tickMsg{gen}\<close> after the duration \<open>d\<close>.
\<close>

datatype cmd =
  CmdNil
  | CmdQuit
  | CmdTick int int

text \<open>
  What one call of \<open>Update\<close> reads from outside: \<open>time.Now()\<close>, the outcome of
  \<open>rng.Float64() < 0.12\<close>, the outcome of \<open>rng.Float64() < 0.5\<close>, and \<open>rng.Intn(4)\<close>.
\<close>

record env =
  now :: int
  spawnRoll :: bool
  rockRoll :: bool
  intn4 :: int

text \<open>
  The high-score file: its content when \<open>os.ReadFile\<close> succeeds, and whether \<open>os.WriteFile\<close>
  succeeds. A file that was written can be read back.
\<close>

record disk =
  content :: "string option"
  writable :: bool

subsection \<open>High-score persistence\<close>

text \<open>\<open>strconv.Itoa\<close>: decimal digits, most significant first, a minus sign for negatives.\<close>

definition digit_char :: "nat \<Rightarrow> char" where
  "digit_char d = ''0123456789'' ! d"

fun utoa :: "nat \<Rightarrow> string" where
  "utoa n = (if n < 10 then [digit_char n] else utoa (n div 10) @ [digit_char (n mod 10)])"

declare utoa.simps [simp del]

definition Itoa :: "int \<Rightarrow> string" where
  "Itoa i = (if i < 0 then CHR ''-'' # utoa (nat (- i)) else utoa (nat i))"

text \<open>
  \<open>strconv.Atoi\<close> on a 64-bit platform: an optional sign, then one or more decimal digits, and
  the value within the range of \<open>int\<close>; anything else is an error (\<open>None\<close>).
\<close>

definition digit_val :: "char \<Rightarrow> nat option" where
  "digit_val c =
     (let v = (of_char c :: nat) in if 48 \<le> v \<and> v \<le> 57 then Some (v - 48) else None)"

fun parse_digits :: "nat \<Rightarrow> string \<Rightarrow> nat option" where
  "parse_digits acc [] = Some acc"
| "parse_digits acc (c # cs) =
     (case digit_val c of None \<Rightarrow> None | Some v \<Rightarrow> parse_digits (acc * 10 + v) cs)"

definition Atoi :: "string \<Rightarrow> int option" where
  "Atoi s =
     (case s of
        [] \<Rightarrow> None
      | c # cs \<Rightarrow>
          (let body = (if c = CHR ''-'' \<or> c = CHR ''+'' then cs else s) in
           if body = [] then None
           else case parse_digits 0 body of
                  None \<Rightarrow> None
                | Some n \<Rightarrow>
                    if c = CHR ''-''
                    then (if n > 2 ^ 63 then None else Some (- int n))
                    else (if n \<ge> 2 ^ 63 then None else Some (int n))))"

text \<open>
  \<open>strings.TrimSpace\<close> removes every leading and trailing white-space code point, as
  \<open>unicode.IsSpace\<close> defines it, from a UTF-8 string. \<open>space_runes\<close> lists the UTF-8 encodings
  of these code points: U+0009 to U+000D, U+0020, U+0085, U+00A0, U+1680, U+2000 to U+200A,
  U+2028, U+2029, U+202F, U+205F and U+3000. A byte sequence that is not one of them decodes
  to a rune that is not white space, so trimming is removing these sequences at both ends.
\<close>

definition space_runes :: "string list" where
  "space_runes =
     [[CHR 0x09], [CHR 0x0A], [CHR 0x0B], [CHR 0x0C], [CHR 0x0D], [CHR 0x20],
      [CHR 0xC2, CHR 0x85], [CHR 0xC2, CHR 0xA0],
      [CHR 0xE1, CHR 0x9A, CHR 0x80],
      [CHR 0xE2, CHR 0x80, CHR 0x80], [CHR 0xE2, CHR 0x80, CHR 0x81],
      [CHR 0xE2, CHR 0x80, CHR 0x82], [CHR 0xE2, CHR 0x80, CHR 0x83],
      [CHR 0xE2, CHR 0x80, CHR 0x84], [CHR 0xE2, CHR 0x80, CHR 0x85],
      [CHR 0xE2, CHR 0x80, CHR 0x86], [CHR 0xE2, CHR 0x80, CHR 0x87],
      [CHR 0xE2, CHR 0x80, CHR 0x88], [CHR 0xE2, CHR 0x80, CHR 0x89],
      [CHR 0xE2, CHR 0x80, CHR 0x8A],
      [CHR 0xE2, CHR 0x80, CHR 0xA8], [CHR 0xE2, CHR 0x80, CHR 0xA9],
      [CHR 0xE2, CHR 0x80, CHR 0xAF],
      [CHR 0xE2, CHR 0x81, CHR 0x9F],
      [CHR 0xE3, CHR 0x80, CHR 0x80]]"

text \<open>
  \<open>trim_runes rs s\<close> strips from the front of \<open>s\<close> every sequence of the table \<open>rs\<close>. The
  right end is trimmed on the reversed string with the reversed table.
\<close>

function trim_runes :: "string list \<Rightarrow> string \<Rightarrow> string" where
  "trim_runes rs s =
     (case List.find (\<lambda>r. r \<noteq> [] \<and> prefix r s) rs of
        None \<Rightarrow> s
      | Some r \<Rightarrow> trim_runes rs (drop (length r) s))"
  by pat_completeness auto

termination
proof (relation "measure (\<lambda>(rs, s). length s)")
  show "wf (measure (\<lambda>(rs, s). length s))"
    by simp
next
  fix rs :: "string list" and s r :: string
  assume "List.find (\<lambda>r. r \<noteq> [] \<and> prefix r s) rs = Some r"
  then have "r \<noteq> []" and "prefix r s"
    by (auto simp: find_Some_iff)
  then have "0 < length r" and "length r \<le> length s"
    by (auto simp: prefix_length_le)
  then show "((rs, drop (length r) s), (rs, s)) \<in> measure (\<lambda>(rs, s). length s)"
    by (cases r) simp_all
qed

declare trim_runes.simps [simp del]

definition TrimSpace :: "string \<Rightarrow> string" where
  "TrimSpace s = rev (trim_runes (map rev space_runes) (rev (trim_runes space_runes s)))"

definition loadHighScore :: "disk \<Rightarrow> int" where
  "loadHighScore d =
     (case content d of
        None \<Rightarrow> 0
      | Some data \<Rightarrow>
          (case Atoi (TrimSpace data) of
             None \<Rightarrow> 0
           | Some s \<Rightarrow> if s < 0 then 0 else s))"

definition saveHighScore :: "disk \<Rightarrow> int \<Rightarrow> disk" where
  "saveHighScore d score = (if writable d then d\<lparr>content := Some (Itoa score)\<rparr> else d)"

subsection \<open>Layout, restart and game over\<close>

text \<open>
  The value of a 64-bit two's complement operation whose exact result is \<open>i\<close>: Go's \<open>int\<close>
  arithmetic wraps around silently.
\<close>

definition wrap64 :: "int \<Rightarrow> int" where
  "wrap64 i = (i + 2 ^ 63) mod 2 ^ 64 - 2 ^ 63"

text \<open>Go's integer division truncates towards zero; the only divisor used is 2.\<close>

definition go_div :: "int \<Rightarrow> int \<Rightarrow> int" where
  "go_div a b = sgn a * sgn b * (\<bar>a\<bar> div \<bar>b\<bar>)"

definition tickAfter :: "int \<Rightarrow> int \<Rightarrow> cmd" where
  "tickAfter d gen = CmdTick d gen"

definition recalcSizes :: "model \<Rightarrow> model" where
  "recalcSizes m =
     (let topRows = 1; bottomRows = 1; borders = 2 * 3;
          m1 = m\<lparr>gameRows :=
                 wrap64 (wrap64 (wrap64 (m_h m - topRows) - bottomRows) - borders)\<rparr>;
          m2 = (if gameRows m1 < 5 then m1\<lparr>gameRows := 5\<rparr> else m1);
          m3 = m2\<lparr>gameCols := go_div (wrap64 (m_w m2 - 2)) 2\<rparr>;
          m4 = (if gameCols m3 < 10 then m3\<lparr>gameCols := 10\<rparr> else m3)
      in m4\<lparr>playerY := wrap64 (gameRows m4 - 2)\<rparr>)"

definition restart :: "model \<Rightarrow> model \<times> cmd" where
  "restart m =
     (let m' = m\<lparr>dist := 0, playerY := wrap64 (gameRows m - 2), velY := 0, obstacles := [],
                  frameDur := startFrame, gameOver := False,
                  tickGen := wrap64 (tickGen m + 1)\<rparr>
      in (m', tickAfter (frameDur m') (tickGen m')))"

definition setGameOver :: "env \<Rightarrow> model \<times> disk \<Rightarrow> model \<times> disk" where
  "setGameOver e md =
     (let m1 = (fst md)\<lparr>gameOver := True, restartAt := now e + cooldownSeconds * second\<rparr>
      in if dist m1 > highScore m1
         then (let m2 = m1\<lparr>highScore := dist m1\<rparr> in (m2, saveHighScore (snd md) (highScore m2)))
         else (m1, snd md))"

text \<open>
  The zero \<open>time.Time\<close> (1 January of year 1) in nanoseconds relative to the Unix epoch.
\<close>

definition zeroTime :: int where
  "zeroTime = - 62135596800 * second"

definition initialModel :: "disk \<Rightarrow> model" where
  "initialModel d =
     \<lparr>m_w = 0, m_h = 0, gameRows = 0, gameCols = 0, frameDur = startFrame, tickGen = 0,
      dist = 0, playerY = 0, velY = 0, obstacles = [], highScore = loadHighScore d,
      gameOver = False, restartAt = zeroTime\<rparr>"

subsection \<open>The gameplay step of a tick\<close>

definition physics :: "model \<Rightarrow> model" where
  "physics m =
     (let m1 = m\<lparr>velY := velY m + gravity\<rparr>;
          m2 = m1\<lparr>playerY := playerY m1 + velY m1\<rparr>
      in if playerY m2 \<ge> gameRows m2 - 2
         then m2\<lparr>playerY := gameRows m2 - 2, velY := 0\<rparr>
         else m2)"

text \<open>The loop that shifts every obstacle one cell left and keeps those at \<open>-1\<close> or beyond.\<close>

fun shift :: "obstacle list \<Rightarrow> obstacle list" where
  "shift [] = []"
| "shift (ob # obs) =
     (let ob' = ob\<lparr>ob_x := ob_x ob - 1\<rparr>
      in if ob_x ob' \<ge> - 1 then ob' # shift obs else shift obs)"

text \<open>The loop that computes \<open>furthest\<close>, started at the sentinel \<open>-1\<close>.\<close>

fun furthest_from :: "int \<Rightarrow> obstacle list \<Rightarrow> int" where
  "furthest_from f [] = f"
| "furthest_from f (ob # obs) = furthest_from (if ob_x ob > f then ob_x ob else f) obs"

definition spawn :: "env \<Rightarrow> model \<Rightarrow> model" where
  "spawn e m =
     (let furthest = furthest_from (- 1) (obstacles m)
      in if furthest < gameCols m - minGapCells - 1 \<and> spawnRoll e
         then (let kind = (if rockRoll e then ''rock'' else ''hole'');
                   sp = gameCols m + intn4 e
               in m\<lparr>obstacles := obstacles m @ [\<lparr>ob_x = sp, ob_typ = kind\<rparr>]\<rparr>)
         else m)"

text \<open>The collision loop over the obstacles; \<open>setGameOver\<close> also writes the high-score file.\<close>

fun collide :: "env \<Rightarrow> obstacle list \<Rightarrow> model \<times> disk \<Rightarrow> model \<times> disk" where
  "collide e [] md = md"
| "collide e (ob # obs) md =
     collide e obs
       (if ob_x ob = 2
        then (if ob_typ ob = ''hole''
              then (if playerY (fst md) \<ge> gameRows (fst md) - 2 then setGameOver e md else md)
              else if ob_typ ob = ''rock''
              then (if playerY (fst md) = gameRows (fst md) - 2 then setGameOver e md else md)
              else md)
        else md)"

text \<open>
  \<open>time.Duration(float64(m.frameDur) * accelFactor)\<close>, in IEEE 754 double precision:
  the conversion of the integer to \<open>float64\<close> rounds to 53 significant bits, ties to even;
  the product with the double nearest to 0.998 is rounded the same way; the conversion back
  truncates towards zero. \<open>round53 n\<close> rounds the natural number \<open>n\<close> to 53 significant bits;
  scaling by a power of two is exact, so the rounded product is \<open>round53 (f * accelMant) / 2^53\<close>.
\<close>

fun bitlen :: "nat \<Rightarrow> nat" where
  "bitlen n = (if n = 0 then 0 else Suc (bitlen (n div 2)))"

declare bitlen.simps [simp del]

definition round53 :: "nat \<Rightarrow> nat" where
  "round53 n =
     (let b = bitlen n
      in if b \<le> 53 then n
         else (let s = b - 53; q = n div 2 ^ s; r = n mod 2 ^ s; half = 2 ^ (s - 1);
                   q' = (if r > half \<or> (r = half \<and> odd q) then q + 1 else q)
               in q' * 2 ^ s))"

definition accelerate :: "int \<Rightarrow> int" where
  "accelerate fd = sgn fd * int (round53 (round53 (nat \<bar>fd\<bar>) * accelMant) div 2 ^ 53)"

definition gameplay :: "env \<Rightarrow> disk \<Rightarrow> model \<Rightarrow> model \<times> cmd \<times> disk" where
  "gameplay e d m =
     (let m1 = m\<lparr>dist := dist m + 1\<rparr>;
          m2 = physics m1;
          m3 = m2\<lparr>obstacles := shift (obstacles m2)\<rparr>;
          m4 = spawn e m3;
          md = collide e (obstacles m4) (m4, d);
          m5 = (fst md)\<lparr>frameDur := accelerate (frameDur (fst md))\<rparr>
      in (m5, tickAfter (frameDur m5) (tickGen m5), snd md))"

subsection \<open>Update\<close>

fun Update :: "env \<Rightarrow> disk \<Rightarrow> model \<Rightarrow> msg \<Rightarrow> model \<times> cmd \<times> disk" where
  "Update e d m (WindowSizeMsg wd ht) = (recalcSizes (m\<lparr>m_w := wd, m_h := ht\<rparr>), CmdNil, d)"
| "Update e d m (KeyMsg k) =
     (if k = ''q'' \<or> k = ''ctrl+c'' then (m, CmdQuit, d)
      else if k = '' '' \<or> k = ''w''
      then (if gameOver m
            then (if now e > restartAt m
                  then (fst (restart m), snd (restart m), d)
                  else (m, CmdNil, d))
            else ((if playerY m = gameRows m - 2 then m\<lparr>velY := jumpVel\<rparr> else m), CmdNil, d))
      else (m, CmdNil, d))"
| "Update e d m (TickMsg gen) =
     (if gen \<noteq> tickGen m then (m, CmdNil, d)
      else if gameOver m then (m, tickAfter gameOverTick (tickGen m), d)
      else if gameRows m = 0 \<or> gameCols m = 0 then (m, tickAfter (frameDur m) (tickGen m), d)
      else gameplay e d m)"
| "Update e d m OtherMsg = (m, CmdNil, d)"

text \<open>
  A run of ticks: each tick the runtime delivers carries the generation current at that
  moment. \<open>stays_running\<close> holds when the game is not over before any of these ticks.
\<close>

fun run_ticks :: "env list \<Rightarrow> disk \<Rightarrow> model \<Rightarrow> model \<times> disk" where
  "run_ticks [] d m = (m, d)"
| "run_ticks (e # es) d m =
     (let r = Update e d m (TickMsg (tickGen m)) in run_ticks es (snd (snd r)) (fst r))"

fun stays_running :: "env list \<Rightarrow> disk \<Rightarrow> model \<Rightarrow> bool" where
  "stays_running [] d m = True"
| "stays_running (e # es) d m =
     (\<not> gameOver m \<and>
      (let r = Update e d m (TickMsg (tickGen m)) in stays_running es (snd (snd r)) (fst r)))"

text \<open>
  Before the first window-size message the grid has no rows and no columns, and no tick has
  run its gameplay step, so there are no obstacles yet.
\<close>

definition layout_inv :: "model \<Rightarrow> bool" where
  "layout_inv m = (gameRows m = 0 \<or> gameCols m = 0 \<longrightarrow> obstacles m = [])"

text \<open>
  The states the program can be in: the initial model, and what \<open>Update\<close> makes of such a
  state for any message, clock and file, with \<open>rng.Intn(4)\<close> in its range.
\<close>

inductive reachable :: "model \<Rightarrow> bool" where
  start: "reachable (initialModel d)"
| step: "reachable m \<Longrightarrow> 0 \<le> intn4 e \<Longrightarrow> intn4 e < 4 \<Longrightarrow>
         reachable (fst (Update e d m msg))"

text \<open>The model after the tick of the current generation.\<close>

abbreviation after_tick :: "env \<Rightarrow> disk \<Rightarrow> model \<Rightarrow> model" where
  "after_tick e d m \<equiv> fst (Update e d m (TickMsg (tickGen m)))"

text \<open>Concrete states and inputs used to exercise the theorems.\<close>

definition m_run :: model where
  "m_run =
     \<lparr>m_w = 82, m_h = 20, gameRows = 12, gameCols = 40, frameDur = 45000000, tickGen = 3,
      dist = 17, playerY = 10, velY = 0,
      obstacles = [\<lparr>ob_x = 3, ob_typ = ''hole''\<rparr>, \<lparr>ob_x = 20, ob_typ = ''rock''\<rparr>],
      highScore = 5, gameOver = False, restartAt = 0\<rparr>"

definition m_air :: model where
  "m_air = m_run\<lparr>playerY := 7, velY := - 1\<rparr>"

definition m_over :: model where
  "m_over = m_run\<lparr>gameOver := True, restartAt := 5000000000\<rparr>"

definition m_two :: model where
  "m_two = m_run\<lparr>obstacles := [\<lparr>ob_x = 4, ob_typ = ''rock''\<rparr>]\<rparr>"

definition m_last :: model where
  "m_last = m_over\<lparr>tickGen := 9223372036854775807\<rparr>"

definition e0 :: env where
  "e0 = \<lparr>now = 5000000000, spawnRoll = True, rockRoll = True, intn4 = 2\<rparr>"

definition d0 :: disk where
  "d0 = \<lparr>content = Some ''5'', writable = True\<rparr>"

section \<open>Messages that are not gameplay ticks\<close>

text \<open>
  Claim C1. A tick message whose generation differs from the model's \<open>tickGen\<close> is dropped:
  \<open>Update\<close> returns the model as it was, every field unchanged, with the command \<open>nil\<close>, so
  no further tick is scheduled. The high-score file is not touched either.
\<close>

theorem stale_tick_ignored:
  "gen \<noteq> tickGen m \<Longrightarrow> Update e d m (TickMsg gen) = (m, CmdNil, d)"
  by simp

theorem stale_tick_ignored_witness:
  "(2::int) \<noteq> tickGen m_run \<and> Update e0 d0 m_run (TickMsg 2) = (m_run, CmdNil, d0)"
  using stale_tick_ignored [of 2 m_run e0 d0] by (simp add: m_run_def)

text \<open>
  Claim C10. While the game is over, a tick of the current generation changes no field of
  the model and schedules the next tick after the fixed period \<open>gameOverTick\<close> of 250 ms,
  whatever \<open>frameDur\<close> is.
\<close>

theorem game_over_tick_idle:
  "gameOver m \<Longrightarrow>
   Update e d m (TickMsg (tickGen m)) = (m, CmdTick (250 * millisecond) (tickGen m), d)"
  by (simp add: tickAfter_def gameOverTick_def)

theorem game_over_tick_idle_witness:
  "gameOver m_over \<and>
   Update e0 d0 m_over (TickMsg 3) = (m_over, CmdTick 250000000 3, d0)"
  using game_over_tick_idle [of m_over e0 d0]
  by (simp add: m_over_def m_run_def millisecond_def)

text \<open>Where the exact result fits in 64 bits, nothing wraps.\<close>

lemma wrap64_id: "- (2 ^ 63) \<le> i \<Longrightarrow> i < 2 ^ 63 \<Longrightarrow> wrap64 i = i"
  by (simp add: wrap64_def)

lemma wrap64_range: "- (2 ^ 63) \<le> wrap64 i \<and> wrap64 i < 2 ^ 63"
  by (simp add: wrap64_def)

lemma wrap64_diff: "wrap64 (wrap64 a - b) = wrap64 (a - b)"
proof -
  have "(wrap64 a - b + 2 ^ 63) mod 2 ^ 64 = ((a + 2 ^ 63) mod 2 ^ 64 - b) mod 2 ^ 64"
    by (simp add: wrap64_def)
  also have "\<dots> = (a + 2 ^ 63 - b) mod 2 ^ 64"
    by (rule mod_diff_left_eq)
  also have "\<dots> = (a - b + 2 ^ 63) mod 2 ^ 64"
    by (simp add: algebra_simps)
  finally show ?thesis
    by (simp add: wrap64_def)
qed

text \<open>
  The three subtractions for the rows wrap like one subtraction of 8, and the rest height of
  at least 5 rows does not wrap.
\<close>

lemma recalcSizes_eq:
  "recalcSizes m =
     m\<lparr>gameRows := max 5 (wrap64 (m_h m - 8)),
       gameCols := max 10 (go_div (wrap64 (m_w m - 2)) 2),
       playerY := max 5 (wrap64 (m_h m - 8)) - 2\<rparr>"
proof -
  define g where "g = max 5 (wrap64 (m_h m - 8))"
  define c where "c = max 10 (go_div (wrap64 (m_w m - 2)) 2)"
  have rows: "wrap64 (wrap64 (wrap64 (m_h m - 1) - 1) - 6) = wrap64 (m_h m - 8)"
    by (simp add: wrap64_diff)
  have "- (2 ^ 63) \<le> g - 2" and "g - 2 < 2 ^ 63"
    using wrap64_range [of "m_h m - 8"] by (simp_all add: g_def)
  then have rest: "wrap64 (g - 2) = g - 2"
    by (rule wrap64_id)
  have "recalcSizes m = m\<lparr>gameRows := g, gameCols := c, playerY := wrap64 (g - 2)\<rparr>"
    by (simp add: recalcSizes_def Let_def rows g_def c_def max_def)
  then have "recalcSizes m = m\<lparr>gameRows := g, gameCols := c, playerY := g - 2\<rparr>"
    by (simp only: rest)
  then show ?thesis
    by (simp only: g_def c_def)
qed

text \<open>
  Claim C3. In the game-over state, a jump key (space or \<open>w\<close>) pressed after \<open>restartAt\<close>
  restarts the run: \<open>dist\<close> is 0, the obstacle list is empty, \<open>frameDur\<close> is the initial 45 ms,
  \<open>gameOver\<close> is false, \<open>velY\<close> is 0, \<open>playerY\<close> is the rest height \<open>gameRows - 2\<close> and
  \<open>tickGen\<close> is incremented, both in Go's 64-bit arithmetic. The other fields keep their
  values, and the first tick of the new generation is scheduled. Whenever the generation is
  below the largest \<open>int\<close> (and the rows are not within 2 of the smallest), the new generation
  is exactly the old one plus 1 and the rest height is exactly \<open>gameRows - 2\<close>.
\<close>

theorem restart_resets_run:
  "gameOver m \<Longrightarrow> k = '' '' \<or> k = ''w'' \<Longrightarrow> now e > restartAt m \<Longrightarrow>
   Update e d m (KeyMsg k) =
     (m\<lparr>dist := 0, playerY := wrap64 (gameRows m - 2), velY := 0, obstacles := [],
        frameDur := 45 * millisecond, gameOver := False, tickGen := wrap64 (tickGen m + 1)\<rparr>,
      CmdTick (45 * millisecond) (wrap64 (tickGen m + 1)), d) \<and>
   (- (2 ^ 63) \<le> tickGen m \<and> tickGen m < 2 ^ 63 - 1 \<and>
    - (2 ^ 63) + 2 \<le> gameRows m \<and> gameRows m < 2 ^ 63 \<longrightarrow>
    Update e d m (KeyMsg k) =
      (m\<lparr>dist := 0, playerY := gameRows m - 2, velY := 0, obstacles := [],
         frameDur := 45 * millisecond, gameOver := False, tickGen := tickGen m + 1\<rparr>,
       CmdTick (45 * millisecond) (tickGen m + 1), d))"
proof (intro conjI impI)
  assume h: "gameOver m" "k = '' '' \<or> k = ''w''" "now e > restartAt m"
  then show gen: "Update e d m (KeyMsg k) =
     (m\<lparr>dist := 0, playerY := wrap64 (gameRows m - 2), velY := 0, obstacles := [],
        frameDur := 45 * millisecond, gameOver := False, tickGen := wrap64 (tickGen m + 1)\<rparr>,
      CmdTick (45 * millisecond) (wrap64 (tickGen m + 1)), d)"
    by (auto simp add: restart_def tickAfter_def startFrame_def Let_def)
  assume "- (2 ^ 63) \<le> tickGen m \<and> tickGen m < 2 ^ 63 - 1 \<and>
    - (2 ^ 63) + 2 \<le> gameRows m \<and> gameRows m < 2 ^ 63"
  then have "wrap64 (tickGen m + 1) = tickGen m + 1"
    and "wrap64 (gameRows m - 2) = gameRows m - 2"
    by (simp_all add: wrap64_id)
  with gen show "Update e d m (KeyMsg k) =
      (m\<lparr>dist := 0, playerY := gameRows m - 2, velY := 0, obstacles := [],
         frameDur := 45 * millisecond, gameOver := False, tickGen := tickGen m + 1\<rparr>,
       CmdTick (45 * millisecond) (tickGen m + 1), d)"
    by (simp del: Update.simps)
qed

theorem restart_resets_run_witness:
  "gameOver m_over \<and> now (e0\<lparr>now := 5000000001\<rparr>) > restartAt m_over \<and>
   - (2 ^ 63) \<le> tickGen m_over \<and> tickGen m_over < 2 ^ 63 - 1 \<and>
   - (2 ^ 63) + 2 \<le> gameRows m_over \<and> gameRows m_over < 2 ^ 63 \<and>
   Update (e0\<lparr>now := 5000000001\<rparr>) d0 m_over (KeyMsg ''w'') =
     (\<lparr>m_w = 82, m_h = 20, gameRows = 12, gameCols = 40, frameDur = 45000000, tickGen = 4,
       dist = 0, playerY = 10, velY = 0, obstacles = [], highScore = 5, gameOver = False,
       restartAt = 5000000000\<rparr>, CmdTick 45000000 4, d0) \<and>
   gameOver m_last \<and> now (e0\<lparr>now := 5000000001\<rparr>) > restartAt m_last \<and>
   tickGen (fst (Update (e0\<lparr>now := 5000000001\<rparr>) d0 m_last (KeyMsg '' ''))) =
     - 9223372036854775808"
proof -
  have h: "gameOver m_over" "''w'' = '' '' \<or> ''w'' = ''w''"
    "now (e0\<lparr>now := 5000000001\<rparr>) > restartAt m_over"
    and b: "- (2 ^ 63) \<le> tickGen m_over \<and> tickGen m_over < 2 ^ 63 - 1 \<and>
      - (2 ^ 63) + 2 \<le> gameRows m_over \<and> gameRows m_over < 2 ^ 63"
    by (simp_all add: m_over_def m_run_def e0_def)
  have l: "gameOver m_last" "'' '' = '' '' \<or> '' '' = ''w''"
    "now (e0\<lparr>now := 5000000001\<rparr>) > restartAt m_last"
    by (simp_all add: m_last_def m_over_def m_run_def e0_def)
  from restart_resets_run [OF h, of d0, THEN conjunct2, THEN mp, OF b]
  have "Update (e0\<lparr>now := 5000000001\<rparr>) d0 m_over (KeyMsg ''w'') =
      (m_over\<lparr>dist := 0, playerY := gameRows m_over - 2, velY := 0, obstacles := [],
         frameDur := 45 * millisecond, gameOver := False, tickGen := tickGen m_over + 1\<rparr>,
       CmdTick (45 * millisecond) (tickGen m_over + 1), d0)" .
  then have one: "Update (e0\<lparr>now := 5000000001\<rparr>) d0 m_over (KeyMsg ''w'') =
     (\<lparr>m_w = 82, m_h = 20, gameRows = 12, gameCols = 40, frameDur = 45000000, tickGen = 4,
       dist = 0, playerY = 10, velY = 0, obstacles = [], highScore = 5, gameOver = False,
       restartAt = 5000000000\<rparr>, CmdTick 45000000 4, d0)"
    by (simp add: m_over_def m_run_def millisecond_def del: Update.simps)
  from restart_resets_run [OF l, of d0, THEN conjunct1]
  have "tickGen (fst (Update (e0\<lparr>now := 5000000001\<rparr>) d0 m_last (KeyMsg '' ''))) =
      wrap64 (tickGen m_last + 1)"
    by (simp del: Update.simps)
  then have two: "tickGen (fst (Update (e0\<lparr>now := 5000000001\<rparr>) d0 m_last (KeyMsg '' ''))) =
      - 9223372036854775808"
    by (simp add: m_last_def wrap64_def del: Update.simps)
  from h b l one two show ?thesis
    by (simp del: Update.simps)
qed

text \<open>What a jump key does while the game is over, for every clock reading.\<close>

lemma jump_in_game_over:
  "gameOver m \<Longrightarrow> k = '' '' \<or> k = ''w'' \<Longrightarrow>
   Update e d m (KeyMsg k) =
     (if now e > restartAt m then (fst (restart m), snd (restart m), d) else (m, CmdNil, d))"
  by auto

text \<open>
  Claim C4. The field \<open>restartAt\<close> is documented as the earliest time a restart is allowed,
  and the game-over panel offers the restart as soon as the countdown \<open>restartAt - now\<close> is not
  positive. \<open>Update\<close> tests \<open>time.Now().After(m.restartAt)\<close>, which is strict: a jump key
  pressed exactly at \<open>restartAt\<close> is ignored and the game stays over.
\<close>

theorem restart_refused_at_restartAt:
  "gameOver m_over \<and> now e0 = restartAt m_over \<and>
   Update e0 d0 m_over (KeyMsg '' '') = (m_over, CmdNil, d0)"
  by (simp add: e0_def m_over_def m_run_def)

text \<open>
  Claim C5, as stated, fails: \<open>recalcSizes\<close> assigns \<open>playerY\<close>, so a resize puts a character
  that is in the air back on the rest row, even when the terminal size is the one it already
  had.
\<close>

theorem resize_moves_player_counterexample:
  "\<not> gameOver m_air \<and>
   playerY (fst (Update e0 d0 m_air (WindowSizeMsg 82 20))) \<noteq> playerY m_air"
proof -
  have "wrap64 12 = 12"
    by (simp add: wrap64_def)
  then show ?thesis
    by (simp add: m_air_def m_run_def recalcSizes_eq)
qed

text \<open>
  Claim C5, amended. A resize stores the new terminal size, recomputes \<open>gameRows\<close> as the
  height minus 8 with a floor of 5 and \<open>gameCols\<close> as half of the width minus 2 (rounded
  towards zero) with a floor of 10, the two subtractions in Go's 64-bit arithmetic, and sets
  \<open>playerY\<close> to the new rest height \<open>gameRows - 2\<close>. Every other field (\<open>dist\<close>, \<open>velY\<close>,
  \<open>obstacles\<close>, \<open>frameDur\<close>, \<open>tickGen\<close>, \<open>gameOver\<close>, \<open>highScore\<close>, \<open>restartAt\<close>) is
  unchanged and no tick is scheduled. For every size whose subtractions do not overflow (a
  height of at least the smallest \<open>int\<close> plus 8, a width of at least the smallest \<open>int\<close>
  plus 2) the rows are exactly \<open>max 5 (height - 8)\<close> and the columns exactly
  \<open>max 10 ((width - 2) / 2)\<close>.
\<close>

theorem resize_recomputes_layout:
  "Update e d m (WindowSizeMsg wd ht) =
     (m\<lparr>m_w := wd, m_h := ht, gameRows := max 5 (wrap64 (ht - 8)),
        gameCols := max 10 (go_div (wrap64 (wd - 2)) 2),
        playerY := max 5 (wrap64 (ht - 8)) - 2\<rparr>, CmdNil, d)
   \<and> 5 \<le> gameRows (fst (Update e d m (WindowSizeMsg wd ht)))
   \<and> 10 \<le> gameCols (fst (Update e d m (WindowSizeMsg wd ht)))
   \<and> (- (2 ^ 63) + 8 \<le> ht \<and> ht < 2 ^ 63 \<and> - (2 ^ 63) + 2 \<le> wd \<and> wd < 2 ^ 63 \<longrightarrow>
      Update e d m (WindowSizeMsg wd ht) =
        (m\<lparr>m_w := wd, m_h := ht, gameRows := max 5 (ht - 8),
           gameCols := max 10 (go_div (wd - 2) 2), playerY := max 5 (ht - 8) - 2\<rparr>, CmdNil, d))"
proof -
  have gen: "Update e d m (WindowSizeMsg wd ht) =
       (m\<lparr>m_w := wd, m_h := ht, gameRows := max 5 (wrap64 (ht - 8)),
          gameCols := max 10 (go_div (wrap64 (wd - 2)) 2),
          playerY := max 5 (wrap64 (ht - 8)) - 2\<rparr>, CmdNil, d)"
    by (simp add: recalcSizes_eq)
  show ?thesis
  proof (intro conjI impI)
    show "Update e d m (WindowSizeMsg wd ht) =
       (m\<lparr>m_w := wd, m_h := ht, gameRows := max 5 (wrap64 (ht - 8)),
          gameCols := max 10 (go_div (wrap64 (wd - 2)) 2),
          playerY := max 5 (wrap64 (ht - 8)) - 2\<rparr>, CmdNil, d)"
      by (rule gen)
    show "5 \<le> gameRows (fst (Update e d m (WindowSizeMsg wd ht)))"
      unfolding gen by simp
    show "10 \<le> gameCols (fst (Update e d m (WindowSizeMsg wd ht)))"
      unfolding gen by simp
    assume "- (2 ^ 63) + 8 \<le> ht \<and> ht < 2 ^ 63 \<and> - (2 ^ 63) + 2 \<le> wd \<and> wd < 2 ^ 63"
    then have "wrap64 (ht - 8) = ht - 8" and "wrap64 (wd - 2) = wd - 2"
      by (simp_all add: wrap64_id)
    with gen show "Update e d m (WindowSizeMsg wd ht) =
        (m\<lparr>m_w := wd, m_h := ht, gameRows := max 5 (ht - 8),
           gameCols := max 10 (go_div (wd - 2) 2), playerY := max 5 (ht - 8) - 2\<rparr>, CmdNil, d)"
      by (simp only:)
  qed
qed

theorem resize_recomputes_layout_witness:
  "- (2 ^ 63) + 8 \<le> (30::int) \<and> (30::int) < 2 ^ 63 \<and>
   - (2 ^ 63) + 2 \<le> (101::int) \<and> (101::int) < 2 ^ 63 \<and>
   Update e0 d0 m_air (WindowSizeMsg 101 30) =
     (m_air\<lparr>m_w := 101, m_h := 30, gameRows := 22, gameCols := 49, playerY := 20\<rparr>,
      CmdNil, d0) \<and>
   Update e0 d0 m_air (WindowSizeMsg 3 9) =
     (m_air\<lparr>m_w := 3, m_h := 9, gameRows := 5, gameCols := 10, playerY := 3\<rparr>, CmdNil, d0) \<and>
   Update e0 d0 m_air (WindowSizeMsg (- 9223372036854775808) 20) =
     (m_air\<lparr>m_w := - 9223372036854775808, m_h := 20, gameRows := 12,
        gameCols := 4611686018427387903, playerY := 10\<rparr>, CmdNil, d0)"
proof -
  have b: "- (2 ^ 63) + 8 \<le> (30::int) \<and> (30::int) < 2 ^ 63 \<and>
      - (2 ^ 63) + 2 \<le> (101::int) \<and> (101::int) < 2 ^ 63"
    and c: "- (2 ^ 63) + 8 \<le> (9::int) \<and> (9::int) < 2 ^ 63 \<and>
      - (2 ^ 63) + 2 \<le> (3::int) \<and> (3::int) < 2 ^ 63"
    by simp_all
  from resize_recomputes_layout [of e0 d0 m_air 101 30, THEN conjunct2, THEN conjunct2,
      THEN conjunct2, THEN mp, OF b]
  have one: "Update e0 d0 m_air (WindowSizeMsg 101 30) =
     (m_air\<lparr>m_w := 101, m_h := 30, gameRows := 22, gameCols := 49, playerY := 20\<rparr>,
      CmdNil, d0)"
    by (simp add: go_div_def del: Update.simps)
  from resize_recomputes_layout [of e0 d0 m_air 3 9, THEN conjunct2, THEN conjunct2,
      THEN conjunct2, THEN mp, OF c]
  have two: "Update e0 d0 m_air (WindowSizeMsg 3 9) =
     (m_air\<lparr>m_w := 3, m_h := 9, gameRows := 5, gameCols := 10, playerY := 3\<rparr>, CmdNil, d0)"
    by (simp add: go_div_def del: Update.simps)
  from resize_recomputes_layout [of e0 d0 m_air "- 9223372036854775808" 20, THEN conjunct1]
  have three: "Update e0 d0 m_air (WindowSizeMsg (- 9223372036854775808) 20) =
     (m_air\<lparr>m_w := - 9223372036854775808, m_h := 20, gameRows := 12,
        gameCols := 4611686018427387903, playerY := 10\<rparr>, CmdNil, d0)"
    by (simp add: go_div_def wrap64_def del: Update.simps)
  from b one two three show ?thesis
    by (simp del: Update.simps)
qed

text \<open>
  Claim C6. While the game is running, a jump key sets \<open>velY\<close> to the jump impulse \<open>-4\<close>
  when the character is exactly at the rest height \<open>gameRows - 2\<close> and changes nothing else;
  at any other height the jump key changes no field. So the velocity can only change at rest
  height: there is no double jump. No tick is scheduled either way.
\<close>

theorem jump_only_from_rest:
  "\<not> gameOver m \<Longrightarrow> k = '' '' \<or> k = ''w'' \<Longrightarrow>
   (playerY m = gameRows m - 2 \<longrightarrow>
      Update e d m (KeyMsg k) = (m\<lparr>velY := - 4\<rparr>, CmdNil, d)) \<and>
   (playerY m \<noteq> gameRows m - 2 \<longrightarrow> Update e d m (KeyMsg k) = (m, CmdNil, d)) \<and>
   (velY (fst (Update e d m (KeyMsg k))) \<noteq> velY m \<longrightarrow> playerY m = gameRows m - 2)"
  by (auto simp add: jumpVel_def)

theorem jump_only_from_rest_witness:
  "\<not> gameOver m_run \<and> playerY m_run = gameRows m_run - 2 \<and>
   Update e0 d0 m_run (KeyMsg '' '') = (m_run\<lparr>velY := - 4\<rparr>, CmdNil, d0) \<and>
   \<not> gameOver m_air \<and> playerY m_air \<noteq> gameRows m_air - 2 \<and>
   Update e0 d0 m_air (KeyMsg ''w'') = (m_air, CmdNil, d0)"
  using jump_only_from_rest [of m_run "'' ''" e0 d0] jump_only_from_rest [of m_air "''w''" e0 d0]
  by (simp add: m_run_def m_air_def)

section \<open>The gameplay step\<close>

subsection \<open>What each part of the step changes\<close>

lemma setGameOver_fields [simp]:
  "playerY (fst (setGameOver e md)) = playerY (fst md)"
  "gameRows (fst (setGameOver e md)) = gameRows (fst md)"
  "gameCols (fst (setGameOver e md)) = gameCols (fst md)"
  "obstacles (fst (setGameOver e md)) = obstacles (fst md)"
  "frameDur (fst (setGameOver e md)) = frameDur (fst md)"
  "tickGen (fst (setGameOver e md)) = tickGen (fst md)"
  "velY (fst (setGameOver e md)) = velY (fst md)"
  "dist (fst (setGameOver e md)) = dist (fst md)"
  "gameOver (fst (setGameOver e md))"
  by (simp_all add: setGameOver_def Let_def)

lemma collide_fields:
  "playerY (fst (collide e obs md)) = playerY (fst md) \<and>
   gameRows (fst (collide e obs md)) = gameRows (fst md) \<and>
   gameCols (fst (collide e obs md)) = gameCols (fst md) \<and>
   obstacles (fst (collide e obs md)) = obstacles (fst md) \<and>
   frameDur (fst (collide e obs md)) = frameDur (fst md) \<and>
   tickGen (fst (collide e obs md)) = tickGen (fst md) \<and>
   velY (fst (collide e obs md)) = velY (fst md) \<and>
   dist (fst (collide e obs md)) = dist (fst md)"
  by (induction obs arbitrary: md) simp_all

lemma collide_gameOver:
  "gameOver (fst (collide e obs md)) \<longleftrightarrow>
     gameOver (fst md) \<or>
     (\<exists>ob\<in>set obs. ob_x ob = 2 \<and>
        (ob_typ ob = ''hole'' \<and> playerY (fst md) \<ge> gameRows (fst md) - 2 \<or>
         ob_typ ob = ''rock'' \<and> playerY (fst md) = gameRows (fst md) - 2))"
proof (induction obs arbitrary: md)
  case Nil
  show ?case by simp
next
  case (Cons ob obs)
  show ?case
    by (simp add: Cons.IH)
qed

lemma physics_fields [simp]:
  "gameRows (physics m) = gameRows m"
  "gameCols (physics m) = gameCols m"
  "obstacles (physics m) = obstacles m"
  "gameOver (physics m) = gameOver m"
  "frameDur (physics m) = frameDur m"
  "tickGen (physics m) = tickGen m"
  by (simp_all add: physics_def Let_def)

lemma physics_clamped: "playerY (physics m) \<le> gameRows m - 2"
  by (simp add: physics_def Let_def)

lemma shift_eq:
  "shift obs = map (\<lambda>b. b\<lparr>ob_x := ob_x b - 1\<rparr>) (filter (\<lambda>b. ob_x b - 1 \<ge> - 1) obs)"
  by (induction obs) (simp_all add: Let_def)

lemma furthest_from_less:
  "furthest_from f obs < c \<longleftrightarrow> f < c \<and> (\<forall>b\<in>set obs. ob_x b < c)"
  by (induction obs arbitrary: f) auto

lemma spawn_fields [simp]:
  "gameRows (spawn e m) = gameRows m"
  "gameCols (spawn e m) = gameCols m"
  "playerY (spawn e m) = playerY m"
  "gameOver (spawn e m) = gameOver m"
  "frameDur (spawn e m) = frameDur m"
  "tickGen (spawn e m) = tickGen m"
  by (simp_all add: spawn_def Let_def)

lemma gameplay_fields:
  "playerY (fst (gameplay e d m)) = playerY (physics m)"
  "gameRows (fst (gameplay e d m)) = gameRows m"
  "gameCols (fst (gameplay e d m)) = gameCols m"
  "tickGen (fst (gameplay e d m)) = tickGen m"
  "obstacles (fst (gameplay e d m)) = obstacles (spawn e (m\<lparr>obstacles := shift (obstacles m)\<rparr>))"
  "frameDur (fst (gameplay e d m)) = accelerate (frameDur m)"
  by (simp_all add: gameplay_def Let_def collide_fields physics_def spawn_def)

lemma gameplay_gameOver:
  "\<not> gameOver m \<Longrightarrow>
   gameOver (fst (gameplay e d m)) \<longleftrightarrow>
     (\<exists>ob\<in>set (obstacles (fst (gameplay e d m))).
        ob_x ob = 2 \<and> (ob_typ ob = ''hole'' \<or> ob_typ ob = ''rock'')) \<and>
     playerY (fst (gameplay e d m)) = gameRows m - 2"
proof -
  assume run: "\<not> gameOver m"
  let ?m4 = "spawn e ((physics (m\<lparr>dist := dist m + 1\<rparr>))\<lparr>obstacles := shift (obstacles (physics (m\<lparr>dist := dist m + 1\<rparr>)))\<rparr>)"
  have le: "playerY ?m4 \<le> gameRows ?m4 - 2"
    using physics_clamped [of "m\<lparr>dist := dist m + 1\<rparr>"] by simp
  have py: "playerY (fst (gameplay e d m)) = playerY ?m4"
    by (simp add: gameplay_def Let_def collide_fields)
  have ob: "obstacles (fst (gameplay e d m)) = obstacles ?m4"
    by (simp add: gameplay_def Let_def collide_fields)
  have go: "gameOver (fst (gameplay e d m)) \<longleftrightarrow>
      (\<exists>ob\<in>set (obstacles ?m4). ob_x ob = 2 \<and>
         (ob_typ ob = ''hole'' \<and> playerY ?m4 \<ge> gameRows ?m4 - 2 \<or>
          ob_typ ob = ''rock'' \<and> playerY ?m4 = gameRows ?m4 - 2))"
    using run by (simp add: gameplay_def Let_def collide_gameOver)
  show ?thesis
    unfolding go py ob using le by auto
qed



lemma after_tick_obstacles:
  assumes "\<not> gameOver m" and "layout_inv m"
  shows "\<exists>news. obstacles (after_tick e d m) =
           map (\<lambda>b. b\<lparr>ob_x := ob_x b - 1\<rparr>) (filter (\<lambda>b. ob_x b - 1 \<ge> - 1) (obstacles m)) @ news \<and>
           length news \<le> 1 \<and>
           (\<forall>n\<in>set news.
              ob_x n = gameCols m + intn4 e \<and>
              - 1 < gameCols m - minGapCells - 1 \<and>
              (\<forall>b\<in>set (obstacles m). ob_x b - 1 \<ge> - 1 \<longrightarrow> ob_x b - 1 < gameCols m - minGapCells - 1))"
proof (cases "gameRows m = 0 \<or> gameCols m = 0")
  case True
  with assms have "obstacles m = []" and "after_tick e d m = m"
    by (auto simp: layout_inv_def)
  then show ?thesis by simp
next
  case False
  with assms have "after_tick e d m = fst (gameplay e d m)"
    by simp
  then show ?thesis
    by (auto simp: gameplay_fields spawn_def Let_def shift_eq furthest_from_less)
qed

lemma layout_inv_Update: "layout_inv m \<Longrightarrow> layout_inv (fst (Update e d m msg))"
proof (cases msg)
  case (WindowSizeMsg wd ht)
  then show ?thesis
    by (simp add: layout_inv_def recalcSizes_eq)
next
  case (KeyMsg k)
  assume "layout_inv m"
  with KeyMsg show ?thesis
    by (auto simp: layout_inv_def restart_def Let_def)
next
  case (TickMsg gen)
  assume "layout_inv m"
  with TickMsg show ?thesis
    by (auto simp: layout_inv_def gameplay_fields)
next
  case OtherMsg
  assume "layout_inv m"
  with OtherMsg show ?thesis by simp
qed

lemma layout_inv_initial: "layout_inv (initialModel d)"
  by (simp add: layout_inv_def initialModel_def)

subsection \<open>Collision\<close>

text \<open>
  Claim C2. On a tick of the current generation while the game is running: if some obstacle
  of kind hole or rock stands at column 2 after the scroll (it was at column 3 before), the
  game is over after the tick if and only if the character, after the physics of this tick,
  is at the rest height \<open>gameRows - 2\<close>. When the character is not at rest height the tick never
  ends the game. The rule does not depend on the kind: the game is over after the tick exactly
  when some hole or rock is at column 2 and the character is at rest height.
\<close>

theorem collision_iff_at_rest:
  assumes "\<not> gameOver m" and "layout_inv m"
  shows "(\<forall>ob\<in>set (obstacles m).
            ob_x ob - 1 = 2 \<and> (ob_typ ob = ''hole'' \<or> ob_typ ob = ''rock'') \<longrightarrow>
            (gameOver (after_tick e d m) \<longleftrightarrow>
               playerY (after_tick e d m) = gameRows (after_tick e d m) - 2)) \<and>
         (playerY (after_tick e d m) \<noteq> gameRows (after_tick e d m) - 2 \<longrightarrow>
            \<not> gameOver (after_tick e d m)) \<and>
         (gameOver (after_tick e d m) \<longleftrightarrow>
            (\<exists>ob\<in>set (obstacles (after_tick e d m)).
               ob_x ob = 2 \<and> (ob_typ ob = ''hole'' \<or> ob_typ ob = ''rock'')) \<and>
            playerY (after_tick e d m) = gameRows (after_tick e d m) - 2)"
proof (cases "gameRows m = 0 \<or> gameCols m = 0")
  case True
  with assms have "obstacles m = []" and "after_tick e d m = m"
    by (auto simp: layout_inv_def)
  with assms show ?thesis by simp
next
  case False
  with assms have step: "after_tick e d m = fst (gameplay e d m)"
    by simp
  have iff: "gameOver (after_tick e d m) \<longleftrightarrow>
      (\<exists>ob\<in>set (obstacles (after_tick e d m)).
         ob_x ob = 2 \<and> (ob_typ ob = ''hole'' \<or> ob_typ ob = ''rock'')) \<and>
      playerY (after_tick e d m) = gameRows (after_tick e d m) - 2"
    unfolding step using gameplay_gameOver [OF assms(1), of e d]
    by (simp add: gameplay_fields)
  have reach: "\<exists>ob'\<in>set (obstacles (after_tick e d m)).
      ob_x ob' = 2 \<and> (ob_typ ob' = ''hole'' \<or> ob_typ ob' = ''rock'')"
    if "ob \<in> set (obstacles m)" and "ob_x ob - 1 = 2"
      and "ob_typ ob = ''hole'' \<or> ob_typ ob = ''rock''" for ob
  proof -
    from after_tick_obstacles [OF assms, of e d] obtain news where
      "obstacles (after_tick e d m) =
         map (\<lambda>b. b\<lparr>ob_x := ob_x b - 1\<rparr>) (filter (\<lambda>b. ob_x b - 1 \<ge> - 1) (obstacles m)) @ news"
      by blast
    moreover have "ob\<lparr>ob_x := ob_x ob - 1\<rparr> \<in>
        set (map (\<lambda>b. b\<lparr>ob_x := ob_x b - 1\<rparr>) (filter (\<lambda>b. ob_x b - 1 \<ge> - 1) (obstacles m)))"
      using that by (auto intro!: image_eqI [of _ _ ob])
    ultimately have "ob\<lparr>ob_x := ob_x ob - 1\<rparr> \<in> set (obstacles (after_tick e d m))"
      by simp
    then show ?thesis
      using that by (intro bexI [of _ "ob\<lparr>ob_x := ob_x ob - 1\<rparr>"]) simp_all
  qed
  show ?thesis
    using iff reach by blast
qed

theorem collision_iff_at_rest_witness:
  "\<not> gameOver m_run \<and> layout_inv m_run \<and>
   gameOver (after_tick e0 d0 m_run) \<and>
   playerY (after_tick e0 d0 m_run) = gameRows (after_tick e0 d0 m_run) - 2 \<and>
   \<not> gameOver m_air \<and> layout_inv m_air \<and>
   \<not> gameOver (after_tick e0 d0 m_air) \<and>
   playerY (after_tick e0 d0 m_air) < gameRows (after_tick e0 d0 m_air) - 2"
proof -
  have a: "\<not> gameOver m_run" and b: "layout_inv m_run"
    and c: "\<not> gameOver m_air" and d: "layout_inv m_air"
    by (simp_all add: m_run_def m_air_def layout_inv_def)
  have p1: "playerY (after_tick e0 d0 m_run) = 10" and r1: "gameRows (after_tick e0 d0 m_run) = 12"
    and p2: "playerY (after_tick e0 d0 m_air) = 7" and r2: "gameRows (after_tick e0 d0 m_air) = 12"
    by (simp_all add: m_run_def m_air_def gameplay_fields physics_def gravity_def Let_def)
  have o1: "\<lparr>ob_x = 3, ob_typ = ''hole''\<rparr> \<in> set (obstacles m_run)"
    by (simp add: m_run_def)
  from collision_iff_at_rest [OF a b, of e0 d0] o1 p1 r1
  have "gameOver (after_tick e0 d0 m_run)" by fastforce
  moreover from collision_iff_at_rest [OF c d, of e0 d0] p2 r2
  have "\<not> gameOver (after_tick e0 d0 m_air)" by simp
  ultimately show ?thesis
    using a b c d p1 r1 p2 r2 by simp
qed

subsection \<open>Scrolling and spawning\<close>

lemma shift_twice:
  "0 \<le> k \<Longrightarrow>
   map (\<lambda>b. b\<lparr>ob_x := ob_x b - k\<rparr>)
     (filter (\<lambda>b. ob_x b - k \<ge> - 1)
        (map (\<lambda>b. b\<lparr>ob_x := ob_x b - 1\<rparr>) (filter (\<lambda>b. ob_x b - 1 \<ge> - 1) obs))) =
   map (\<lambda>b. b\<lparr>ob_x := ob_x b - (1 + k)\<rparr>) (filter (\<lambda>b. ob_x b - (1 + k) \<ge> - 1) obs)"
  by (induction obs) auto

lemma run_ticks_obstacles:
  "layout_inv m \<Longrightarrow> stays_running (e # es) d m \<Longrightarrow>
   \<exists>news. obstacles (fst (run_ticks (e # es) d m)) =
     map (\<lambda>b. b\<lparr>ob_x := ob_x b - int (length (e # es))\<rparr>)
       (filter (\<lambda>b. ob_x b - int (length (e # es)) \<ge> - 1) (obstacles m)) @ news"
proof (induction es arbitrary: e d m)
  case Nil
  then have "\<not> gameOver m" by simp
  from after_tick_obstacles [OF this Nil.prems(1), of e d] obtain news where
    "obstacles (after_tick e d m) =
       map (\<lambda>b. b\<lparr>ob_x := ob_x b - 1\<rparr>) (filter (\<lambda>b. ob_x b - 1 \<ge> - 1) (obstacles m)) @ news"
    by blast
  then show ?case
    by (simp add: Let_def del: Update.simps)
next
  case (Cons e' es)
  let ?r = "Update e d m (TickMsg (tickGen m))"
  let ?k = "int (length (e' # es))"
  from Cons.prems have run: "\<not> gameOver m"
    and rest: "stays_running (e' # es) (snd (snd ?r)) (fst ?r)"
    by (simp_all add: Let_def del: Update.simps)
  have inv: "layout_inv (fst ?r)"
    using Cons.prems(1) by (rule layout_inv_Update)
  from after_tick_obstacles [OF run Cons.prems(1), of e d] obtain n1 where
    one: "obstacles (fst ?r) =
      map (\<lambda>b. b\<lparr>ob_x := ob_x b - 1\<rparr>) (filter (\<lambda>b. ob_x b - 1 \<ge> - 1) (obstacles m)) @ n1"
    by blast
  from Cons.IH [OF inv rest] obtain n2 where
    two: "obstacles (fst (run_ticks (e' # es) (snd (snd ?r)) (fst ?r))) =
      map (\<lambda>b. b\<lparr>ob_x := ob_x b - ?k\<rparr>)
        (filter (\<lambda>b. ob_x b - ?k \<ge> - 1) (obstacles (fst ?r))) @ n2"
    by blast
  have unf: "run_ticks (e # e' # es) d m = run_ticks (e' # es) (snd (snd ?r)) (fst ?r)"
    by (simp add: Let_def del: Update.simps)
  have len: "int (length (e # e' # es)) = 1 + ?k"
    by simp
  have "obstacles (fst (run_ticks (e # e' # es) d m)) =
      map (\<lambda>b. b\<lparr>ob_x := ob_x b - (1 + ?k)\<rparr>)
        (filter (\<lambda>b. ob_x b - (1 + ?k) \<ge> - 1) (obstacles m)) @
      (map (\<lambda>b. b\<lparr>ob_x := ob_x b - ?k\<rparr>) (filter (\<lambda>b. ob_x b - ?k \<ge> - 1) n1) @ n2)"
    unfolding unf two one using shift_twice [of ?k "obstacles m"]
    by simp
  then show ?case
    unfolding len by blast
qed

lemma run_ticks_position:
  assumes "layout_inv m" and "stays_running es d m"
    and "ob \<in> set (obstacles m)" and "int (length es) \<le> ob_x ob + 1"
  shows "ob\<lparr>ob_x := ob_x ob - int (length es)\<rparr> \<in> set (obstacles (fst (run_ticks es d m)))"
proof (cases es)
  case Nil
  with assms(3) show ?thesis by simp
next
  case (Cons e es')
  from run_ticks_obstacles [of m e es' d] assms(1,2) Cons obtain news where
    eq: "obstacles (fst (run_ticks es d m)) =
      map (\<lambda>b. b\<lparr>ob_x := ob_x b - int (length es)\<rparr>)
        (filter (\<lambda>b. ob_x b - int (length es) \<ge> - 1) (obstacles m)) @ news"
    by blast
  have "ob\<lparr>ob_x := ob_x ob - int (length es)\<rparr> \<in>
      set (map (\<lambda>b. b\<lparr>ob_x := ob_x b - int (length es)\<rparr>)
        (filter (\<lambda>b. ob_x b - int (length es) \<ge> - 1) (obstacles m)))"
    using assms(3,4) by (auto intro!: image_eqI [of _ _ ob])
  then show ?thesis
    unfolding eq by simp
qed

text \<open>
  Claim C7. On a tick of the current generation while the game is running, the obstacle list
  becomes: every old obstacle with its position decreased by exactly 1, kept if and only if
  the decreased position is at least \<open>-1\<close>, in the old order, followed by at most one new
  obstacle. A new obstacle stands between \<open>gameCols\<close> and \<open>gameCols + 3\<close>, and appears only
  when the sentinel \<open>-1\<close> and every surviving position are less than
  \<open>gameCols - minGapCells - 1\<close>. Spawning changes no existing obstacle. Hence over any
  number \<open>k > 0\<close> of such ticks the old obstacles are exactly those shifted by \<open>k\<close>, and an
  obstacle at position \<open>p\<close> is at \<open>p - k\<close> after \<open>k \<le> p + 1\<close> ticks: one at \<open>p \<ge> 2\<close> is at
  the detection column 2 after exactly \<open>p - 2\<close> ticks.
\<close>

theorem obstacles_scroll_and_spawn:
  assumes "layout_inv m"
  shows "(\<not> gameOver m \<and> 0 \<le> intn4 e \<and> intn4 e < 4 \<longrightarrow>
            (\<exists>news. obstacles (after_tick e d m) =
               map (\<lambda>b. b\<lparr>ob_x := ob_x b - 1\<rparr>)
                 (filter (\<lambda>b. ob_x b - 1 \<ge> - 1) (obstacles m)) @ news \<and>
               length news \<le> 1 \<and>
               (\<forall>n\<in>set news.
                  gameCols m \<le> ob_x n \<and> ob_x n \<le> gameCols m + 3 \<and>
                  - 1 < gameCols m - minGapCells - 1 \<and>
                  (\<forall>b\<in>set (obstacles m).
                     ob_x b - 1 \<ge> - 1 \<longrightarrow> ob_x b - 1 < gameCols m - minGapCells - 1)))) \<and>
         (es \<noteq> [] \<and> stays_running es d m \<longrightarrow>
            (\<exists>news. obstacles (fst (run_ticks es d m)) =
               map (\<lambda>b. b\<lparr>ob_x := ob_x b - int (length es)\<rparr>)
                 (filter (\<lambda>b. ob_x b - int (length es) \<ge> - 1) (obstacles m)) @ news)) \<and>
         (stays_running es d m \<longrightarrow>
            (\<forall>ob\<in>set (obstacles m).
               int (length es) \<le> ob_x ob + 1 \<longrightarrow>
               ob\<lparr>ob_x := ob_x ob - int (length es)\<rparr> \<in> set (obstacles (fst (run_ticks es d m)))) \<and>
            (\<forall>ob\<in>set (obstacles m).
               2 \<le> ob_x ob \<and> int (length es) = ob_x ob - 2 \<longrightarrow>
               ob\<lparr>ob_x := 2\<rparr> \<in> set (obstacles (fst (run_ticks es d m)))))"
proof (intro conjI impI)
  assume h: "\<not> gameOver m \<and> 0 \<le> intn4 e \<and> intn4 e < 4"
  then have "\<not> gameOver m" by simp
  from after_tick_obstacles [OF this assms, of e d] obtain news where
    n: "obstacles (after_tick e d m) =
         map (\<lambda>b. b\<lparr>ob_x := ob_x b - 1\<rparr>) (filter (\<lambda>b. ob_x b - 1 \<ge> - 1) (obstacles m)) @ news"
       "length news \<le> 1"
       "\<forall>n\<in>set news.
          ob_x n = gameCols m + intn4 e \<and> - 1 < gameCols m - minGapCells - 1 \<and>
          (\<forall>b\<in>set (obstacles m). ob_x b - 1 \<ge> - 1 \<longrightarrow> ob_x b - 1 < gameCols m - minGapCells - 1)"
    by blast
  from n(3) h have "\<forall>n\<in>set news.
      gameCols m \<le> ob_x n \<and> ob_x n \<le> gameCols m + 3 \<and> - 1 < gameCols m - minGapCells - 1 \<and>
      (\<forall>b\<in>set (obstacles m). ob_x b - 1 \<ge> - 1 \<longrightarrow> ob_x b - 1 < gameCols m - minGapCells - 1)"
    by auto
  with n(1,2) show "\<exists>news. obstacles (after_tick e d m) =
       map (\<lambda>b. b\<lparr>ob_x := ob_x b - 1\<rparr>) (filter (\<lambda>b. ob_x b - 1 \<ge> - 1) (obstacles m)) @ news \<and>
       length news \<le> 1 \<and>
       (\<forall>n\<in>set news.
          gameCols m \<le> ob_x n \<and> ob_x n \<le> gameCols m + 3 \<and>
          - 1 < gameCols m - minGapCells - 1 \<and>
          (\<forall>b\<in>set (obstacles m).
             ob_x b - 1 \<ge> - 1 \<longrightarrow> ob_x b - 1 < gameCols m - minGapCells - 1))"
    by blast
next
  assume "es \<noteq> [] \<and> stays_running es d m"
  then obtain e' es' where es: "es = e' # es'" and "stays_running (e' # es') d m"
    by (cases es) (auto simp del: stays_running.simps)
  from run_ticks_obstacles [OF assms this(2)]
  show "\<exists>news. obstacles (fst (run_ticks es d m)) =
      map (\<lambda>b. b\<lparr>ob_x := ob_x b - int (length es)\<rparr>)
        (filter (\<lambda>b. ob_x b - int (length es) \<ge> - 1) (obstacles m)) @ news"
    unfolding es .
next
  assume run: "stays_running es d m"
  show "\<forall>ob\<in>set (obstacles m).
      int (length es) \<le> ob_x ob + 1 \<longrightarrow>
      ob\<lparr>ob_x := ob_x ob - int (length es)\<rparr> \<in> set (obstacles (fst (run_ticks es d m)))"
    using run_ticks_position [OF assms run] by blast
  show "\<forall>ob\<in>set (obstacles m).
      2 \<le> ob_x ob \<and> int (length es) = ob_x ob - 2 \<longrightarrow>
      ob\<lparr>ob_x := 2\<rparr> \<in> set (obstacles (fst (run_ticks es d m)))"
  proof (intro ballI impI)
    fix ob
    assume ob: "ob \<in> set (obstacles m)" and p: "2 \<le> ob_x ob \<and> int (length es) = ob_x ob - 2"
    then have "int (length es) \<le> ob_x ob + 1" by simp
    from run_ticks_position [OF assms run ob this] p
    show "ob\<lparr>ob_x := 2\<rparr> \<in> set (obstacles (fst (run_ticks es d m)))"
      by simp
  qed
qed

theorem obstacles_scroll_and_spawn_witness:
  "layout_inv m_two \<and> \<not> gameOver m_two \<and> 0 \<le> intn4 e0 \<and> intn4 e0 < 4 \<and>
   [e0, e0] \<noteq> [] \<and> stays_running [e0, e0] d0 m_two \<and>
   \<lparr>ob_x = 4, ob_typ = ''rock''\<rparr> \<in> set (obstacles m_two) \<and>
   \<lparr>ob_x = 2, ob_typ = ''rock''\<rparr> \<in> set (obstacles (fst (run_ticks [e0, e0] d0 m_two))) \<and>
   (\<exists>news. obstacles (after_tick e0 d0 m_two) = [\<lparr>ob_x = 3, ob_typ = ''rock''\<rparr>] @ news \<and>
      length news \<le> 1 \<and> (\<forall>n\<in>set news. 40 \<le> ob_x n \<and> ob_x n \<le> 43))"
proof -
  have inv: "layout_inv m_two" and run: "\<not> gameOver m_two"
    and r: "0 \<le> intn4 e0 \<and> intn4 e0 < 4"
    and ob: "\<lparr>ob_x = 4, ob_typ = ''rock''\<rparr> \<in> set (obstacles m_two)"
    and cols: "gameCols m_two = 40"
    and obs: "obstacles m_two = [\<lparr>ob_x = 4, ob_typ = ''rock''\<rparr>]"
    by (simp_all add: m_two_def m_run_def e0_def layout_inv_def)
  have st: "stays_running [e0, e0] d0 m_two"
    by (simp add: m_two_def m_run_def e0_def Let_def gameplay_def physics_def spawn_def
        minGapCells_def gravity_def)
  note inst = obstacles_scroll_and_spawn [OF inv, of e0 d0 "[e0, e0]"]
  from inst st have "\<forall>ob\<in>set (obstacles m_two).
      2 \<le> ob_x ob \<and> int (length [e0, e0]) = ob_x ob - 2 \<longrightarrow>
      ob\<lparr>ob_x := 2\<rparr> \<in> set (obstacles (fst (run_ticks [e0, e0] d0 m_two)))"
    by blast
  from bspec [OF this ob]
  have "\<lparr>ob_x = 2, ob_typ = ''rock''\<rparr> \<in> set (obstacles (fst (run_ticks [e0, e0] d0 m_two)))"
    by simp
  moreover from inst run r obtain news where
    "obstacles (after_tick e0 d0 m_two) =
       map (\<lambda>b. b\<lparr>ob_x := ob_x b - 1\<rparr>) (filter (\<lambda>b. ob_x b - 1 \<ge> - 1) (obstacles m_two)) @ news"
    "length news \<le> 1"
    "\<forall>n\<in>set news. gameCols m_two \<le> ob_x n \<and> ob_x n \<le> gameCols m_two + 3"
    by blast
  then have "\<exists>news. obstacles (after_tick e0 d0 m_two) = [\<lparr>ob_x = 3, ob_typ = ''rock''\<rparr>] @ news \<and>
      length news \<le> 1 \<and> (\<forall>n\<in>set news. 40 \<le> ob_x n \<and> ob_x n \<le> 43)"
    unfolding cols obs by (intro exI [of _ news]) (simp del: Update.simps)
  ultimately show ?thesis
    using inv run r st ob by (simp del: Update.simps run_ticks.simps stays_running.simps)
qed

subsection \<open>The speed ramp\<close>

text \<open>
  \<open>bitlen n\<close> is the number of significant bits of \<open>n\<close>, so rounding to 53 bits raises a
  value by at most one part in \<open>2^53\<close>. Two roundings and the factor \<open>accelMant / 2^53\<close> still
  give a product below the duration itself.
\<close>

lemma bitlen_upper: "n < 2 ^ bitlen n"
proof (induction n rule: bitlen.induct)
  case (1 n)
  show ?case
  proof (cases "n = 0")
    case True
    then show ?thesis by (simp add: bitlen.simps)
  next
    case False
    with 1 have "n div 2 < 2 ^ bitlen (n div 2)" by simp
    then have "n < 2 * 2 ^ bitlen (n div 2)" by linarith
    with False show ?thesis by (simp add: bitlen.simps [of n])
  qed
qed

lemma bitlen_lower: "0 < n \<Longrightarrow> 2 ^ (bitlen n - 1) \<le> n"
proof (induction n rule: bitlen.induct)
  case (1 n)
  show ?case
  proof (cases "n div 2 = 0")
    case True
    with 1 have "bitlen n = 1" by (simp add: bitlen.simps [of n] bitlen.simps [of 0])
    with 1 show ?thesis by simp
  next
    case False
    with 1 have ih: "2 ^ (bitlen (n div 2) - 1) \<le> n div 2" by simp
    from False have pos: "0 < bitlen (n div 2)" by (simp add: bitlen.simps [of "n div 2"])
    from 1 have "bitlen n = Suc (bitlen (n div 2))" by (simp add: bitlen.simps [of n])
    then have "(2::nat) ^ (bitlen n - 1) = 2 * 2 ^ (bitlen (n div 2) - 1)"
      using pos by (cases "bitlen (n div 2)") simp_all
    with ih show ?thesis by linarith
  qed
qed

lemma round53_upper: "round53 n * 2 ^ 53 \<le> n * (2 ^ 53 + 1)"
proof (cases "bitlen n \<le> 53")
  case True
  then show ?thesis by (simp add: round53_def)
next
  case False
  define s where "s = bitlen n - 53"
  define q where "q = n div 2 ^ s"
  define r where "r = n mod 2 ^ s"
  define half :: nat where "half = 2 ^ (s - 1)"
  define q' where "q' = (if r > half \<or> (r = half \<and> odd q) then q + 1 else q)"
  from False have s: "0 < s" and bl: "bitlen n = s + 53"
    by (simp_all add: s_def)
  then have npos: "0 < n"
    by (cases "n = 0") (simp_all add: bitlen.simps [of 0])
  have two: "(2::nat) ^ s = 2 * half"
    using s by (cases s) (simp_all add: half_def)
  have n: "n = q * 2 ^ s + r"
    unfolding q_def r_def by (rule div_mult_mod_eq [symmetric])
  have val: "round53 n = q' * 2 ^ s"
    using False by (simp add: round53_def Let_def s_def q_def r_def half_def q'_def)
  have up: "q' * 2 ^ s \<le> n + half"
  proof (cases "r > half \<or> (r = half \<and> odd q)")
    case True
    then have "half \<le> r" by auto
    moreover from True have "q' * 2 ^ s = q * 2 ^ s + 2 * half"
      by (simp add: q'_def two)
    ultimately show ?thesis using n by linarith
  next
    case False
    then have "q' = q" by (simp add: q'_def)
    then show ?thesis using n by simp
  qed
  have e: "s - 1 + 53 = bitlen n - 1"
    using s bl by simp
  have "half * 2 ^ 53 = 2 ^ (s - 1 + 53)"
    unfolding half_def by (rule power_add [symmetric])
  also have "\<dots> = 2 ^ (bitlen n - 1)"
    by (simp only: e)
  also have "\<dots> \<le> n"
    using npos by (rule bitlen_lower)
  finally have hn: "half * 2 ^ 53 \<le> n" .
  have "round53 n * 2 ^ 53 \<le> (n + half) * 2 ^ 53"
    unfolding val using up by (rule mult_le_mono1)
  also have "\<dots> = n * 2 ^ 53 + half * 2 ^ 53"
    by (rule add_mult_distrib)
  also have "\<dots> \<le> n * 2 ^ 53 + n"
    using hn by simp
  also have "\<dots> = n * (2 ^ 53 + 1)"
    by simp
  finally show ?thesis .
qed

lemma accelMant_below_one:
  "accelMant * ((2 ^ 53 + 1) * (2 ^ 53 + 1)) < (2::nat) ^ 53 * (2 ^ 53 * 2 ^ 53)"
  by (simp add: accelMant_def)

lemma accel_nat_less:
  assumes "0 < x"
  shows "round53 (round53 x * accelMant) div 2 ^ 53 < x"
proof -
  define P :: nat where "P = 2 ^ 53"
  define f where "f = round53 x"
  define g where "g = round53 (f * accelMant)"
  define r where "r = g div P"
  have h1: "r * P \<le> g"
    by (simp add: r_def)
  have h2: "g * P \<le> (f * accelMant) * (P + 1)"
    unfolding g_def P_def by (rule round53_upper)
  have h3: "f * P \<le> x * (P + 1)"
    unfolding f_def P_def by (rule round53_upper)
  have K: "accelMant * ((P + 1) * (P + 1)) < P * (P * P)"
    unfolding P_def by (rule accelMant_below_one)
  have "r * (P * (P * P)) = (r * P) * (P * P)"
    by (simp add: mult.assoc)
  also have "\<dots> \<le> g * (P * P)"
    using h1 by (rule mult_le_mono1)
  also have "\<dots> = (g * P) * P"
    by (simp add: mult.assoc)
  also have "\<dots> \<le> ((f * accelMant) * (P + 1)) * P"
    using h2 by (rule mult_le_mono1)
  also have "\<dots> = (f * P) * (accelMant * (P + 1))"
    by (simp only: mult.assoc mult.left_commute mult.commute)
  also have "\<dots> \<le> (x * (P + 1)) * (accelMant * (P + 1))"
    using h3 by (rule mult_le_mono1)
  also have "\<dots> = x * (accelMant * ((P + 1) * (P + 1)))"
    by (simp only: mult.assoc mult.left_commute mult.commute)
  also have "\<dots> < x * (P * (P * P))"
    using K assms by simp
  finally have "r * (P * (P * P)) < x * (P * (P * P))" .
  then have "r < x"
    by simp
  then show ?thesis
    by (simp add: r_def g_def f_def P_def)
qed

lemma accelerate_zero: "accelerate 0 = 0"
  by (simp add: accelerate_def)

lemma accelerate_nonneg: "0 \<le> fd \<Longrightarrow> 0 \<le> accelerate fd"
  by (simp add: accelerate_def sgn_if)

lemma accelerate_less: "0 < fd \<Longrightarrow> accelerate fd < fd"
proof -
  assume pos: "0 < fd"
  then have "0 < nat \<bar>fd\<bar>" by simp
  from accel_nat_less [OF this]
  have "int (round53 (round53 (nat \<bar>fd\<bar>) * accelMant) div 2 ^ 53) < int (nat \<bar>fd\<bar>)"
    by (simp only: of_nat_less_iff)
  with pos show ?thesis
    by (simp add: accelerate_def)
qed

lemma accelerate_le: "0 \<le> fd \<Longrightarrow> accelerate fd \<le> fd"
  using accelerate_less [of fd] accelerate_zero by (cases "fd = 0") auto

lemma accelerate_reaches_zero:
  "0 \<le> fd \<Longrightarrow> nat fd \<le> n \<Longrightarrow> (accelerate ^^ n) fd = 0"
proof (induction n arbitrary: fd)
  case 0
  then show ?case by simp
next
  case (Suc n)
  show ?case
  proof (cases "fd = 0")
    case True
    have "(accelerate ^^ k) 0 = 0" for k
      by (induction k) (simp_all add: accelerate_zero)
    from this [of "Suc n"] True show ?thesis by simp
  next
    case False
    with Suc.prems have "0 < fd" by simp
    then have "accelerate fd < fd" by (rule accelerate_less)
    with Suc.prems have "nat (accelerate fd) \<le> n" by linarith
    moreover have "0 \<le> accelerate fd"
      using Suc.prems(1) by (rule accelerate_nonneg)
    ultimately have "(accelerate ^^ n) (accelerate fd) = 0"
      by (rule Suc.IH [rotated])
    then show ?thesis by (simp add: funpow_swap1)
  qed
qed

lemma accelerate_start: "accelerate 45000000 = 44910000"
  by (simp add: accelerate_def accelMant_def round53_def bitlen.simps Let_def)

text \<open>
  A duration that is not negative stays so under every message, and the initial model and
  every restart set it to 45 ms. So every state the program can be in has a known layout or
  no obstacles, and a frame duration that is not negative.
\<close>

lemma frameDur_nonneg_Update:
  "0 \<le> frameDur m \<Longrightarrow> 0 \<le> frameDur (fst (Update e d m msg))"
proof (cases msg)
  case (WindowSizeMsg wd ht)
  assume "0 \<le> frameDur m"
  with WindowSizeMsg show ?thesis
    by (simp add: recalcSizes_eq)
next
  case (KeyMsg k)
  assume "0 \<le> frameDur m"
  with KeyMsg show ?thesis
    by (auto simp: restart_def Let_def startFrame_def millisecond_def)
next
  case (TickMsg gen)
  assume "0 \<le> frameDur m"
  with TickMsg show ?thesis
    by (auto simp: gameplay_fields accelerate_nonneg)
next
  case OtherMsg
  assume "0 \<le> frameDur m"
  with OtherMsg show ?thesis by simp
qed

lemma reachable_invariants: "reachable m \<Longrightarrow> layout_inv m \<and> 0 \<le> frameDur m"
proof (induction rule: reachable.induct)
  case (start d)
  show ?case
    by (simp add: layout_inv_initial) (simp add: initialModel_def startFrame_def millisecond_def)
next
  case (step m e d msg)
  then show ?case
    by (simp add: layout_inv_Update frameDur_nonneg_Update del: Update.simps)
qed

text \<open>
  The conversion to \<open>time.Duration\<close> truncates towards zero, so a negative duration, which no
  reachable state holds, would move up towards zero.
\<close>

lemma accelerate_negative: "accelerate (- 1000) = - 998"
  by (simp add: accelerate_def accelMant_def round53_def bitlen.simps Let_def)

text \<open>
  Claim C8. Within a run \<open>frameDur\<close> starts at 45 ms and is only changed by the gameplay step
  of a tick, so it is never negative. For every such value, a tick (of any generation) leaves
  \<open>frameDur\<close> less than or equal to what it was, and not negative. The gameplay step replaces
  it by \<open>time.Duration(float64(frameDur) * 0.998)\<close>, which is strictly smaller whenever
  \<open>frameDur\<close> is positive: there is no floor, and repeating the step brings the duration down
  to 0.
\<close>

theorem frameDur_never_increases:
  assumes "0 \<le> frameDur m"
  shows "frameDur (fst (Update e d m (TickMsg gen))) \<le> frameDur m \<and>
         0 \<le> frameDur (fst (Update e d m (TickMsg gen))) \<and>
         (gen = tickGen m \<and> \<not> gameOver m \<and> gameRows m \<noteq> 0 \<and> gameCols m \<noteq> 0 \<longrightarrow>
            frameDur (fst (Update e d m (TickMsg gen))) = accelerate (frameDur m) \<and>
            (0 < frameDur m \<longrightarrow> frameDur (fst (Update e d m (TickMsg gen))) < frameDur m)) \<and>
         (accelerate ^^ nat (frameDur m)) (frameDur m) = 0"
proof -
  have zero: "(accelerate ^^ nat (frameDur m)) (frameDur m) = 0"
    using assms by (rule accelerate_reaches_zero) simp
  show ?thesis
  proof (cases "gen = tickGen m \<and> \<not> gameOver m \<and> gameRows m \<noteq> 0 \<and> gameCols m \<noteq> 0")
    case True
    then have g: "gen = tickGen m"
      and "frameDur (after_tick e d m) = accelerate (frameDur m)"
      by (simp_all add: gameplay_fields)
    with assms zero show ?thesis
      unfolding g
      using accelerate_le [of "frameDur m"] accelerate_nonneg [of "frameDur m"]
        accelerate_less [of "frameDur m"]
      by (simp del: Update.simps)
  next
    case False
    then have "fst (Update e d m (TickMsg gen)) = m"
      by auto
    with assms zero False show ?thesis
      by (auto simp del: Update.simps)
  qed
qed

theorem frameDur_never_increases_witness:
  "0 \<le> frameDur m_run \<and>
   frameDur (after_tick e0 d0 m_run) \<le> frameDur m_run \<and>
   frameDur (after_tick e0 d0 m_run) = 44910000 \<and> frameDur m_run = 45000000"
proof -
  have h: "0 \<le> frameDur m_run" and v: "frameDur m_run = 45000000"
    and g: "3 = tickGen m_run \<and> \<not> gameOver m_run \<and> gameRows m_run \<noteq> 0 \<and> gameCols m_run \<noteq> 0"
    by (simp_all add: m_run_def)
  have t: "tickGen m_run = 3"
    by (simp add: m_run_def)
  from frameDur_never_increases [OF h, of e0 d0 3] g
  have "frameDur (fst (Update e0 d0 m_run (TickMsg 3))) \<le> frameDur m_run"
    and "frameDur (fst (Update e0 d0 m_run (TickMsg 3))) = accelerate (frameDur m_run)"
    by blast+
  then show ?thesis
    using h v accelerate_start by (simp add: t del: Update.simps)
qed

section \<open>The high-score file\<close>

subsection \<open>Formatting, parsing and trimming\<close>

lemma space_runes_cases:
  "r \<in> set space_runes \<longleftrightarrow>
     r = [CHR 0x09] \<or> r = [CHR 0x0A] \<or> r = [CHR 0x0B] \<or> r = [CHR 0x0C] \<or> r = [CHR 0x0D] \<or>
     r = [CHR 0x20] \<or> r = [CHR 0xC2, CHR 0x85] \<or> r = [CHR 0xC2, CHR 0xA0] \<or>
     r = [CHR 0xE1, CHR 0x9A, CHR 0x80] \<or>
     r = [CHR 0xE2, CHR 0x80, CHR 0x80] \<or> r = [CHR 0xE2, CHR 0x80, CHR 0x81] \<or>
     r = [CHR 0xE2, CHR 0x80, CHR 0x82] \<or> r = [CHR 0xE2, CHR 0x80, CHR 0x83] \<or>
     r = [CHR 0xE2, CHR 0x80, CHR 0x84] \<or> r = [CHR 0xE2, CHR 0x80, CHR 0x85] \<or>
     r = [CHR 0xE2, CHR 0x80, CHR 0x86] \<or> r = [CHR 0xE2, CHR 0x80, CHR 0x87] \<or>
     r = [CHR 0xE2, CHR 0x80, CHR 0x88] \<or> r = [CHR 0xE2, CHR 0x80, CHR 0x89] \<or>
     r = [CHR 0xE2, CHR 0x80, CHR 0x8A] \<or>
     r = [CHR 0xE2, CHR 0x80, CHR 0xA8] \<or> r = [CHR 0xE2, CHR 0x80, CHR 0xA9] \<or>
     r = [CHR 0xE2, CHR 0x80, CHR 0xAF] \<or>
     r = [CHR 0xE2, CHR 0x81, CHR 0x9F] \<or>
     r = [CHR 0xE3, CHR 0x80, CHR 0x80]"
  unfolding space_runes_def by (simp only: set_simps insert_iff empty_iff simp_thms)

lemma rune_ends:
  "r \<in> set space_runes \<Longrightarrow>
   r \<noteq> [] \<and> digit_val (hd r) = None \<and> hd r \<noteq> CHR ''-'' \<and> digit_val (last r) = None"
  unfolding space_runes_cases by (elim disjE) (simp_all add: digit_val_def)

lemma find_space_rune:
  "r \<in> set space_runes \<Longrightarrow>
   List.find (\<lambda>r'. r' \<noteq> [] \<and> prefix r' (r @ t)) space_runes = Some r"
  unfolding space_runes_cases by (elim disjE) (simp_all add: space_runes_def)




lemma digit_val_digit_char: "d < 10 \<Longrightarrow> digit_val (digit_char d) = Some d"
proof -
  assume "d < 10"
  then have "d = 0 \<or> d = 1 \<or> d = 2 \<or> d = 3 \<or> d = 4 \<or> d = 5 \<or> d = 6 \<or> d = 7 \<or> d = 8 \<or> d = 9"
    by arith
  then show ?thesis
    by (elim disjE) (simp_all add: digit_char_def digit_val_def)
qed

lemma parse_digits_append:
  "parse_digits acc (xs @ ys) =
     (case parse_digits acc xs of None \<Rightarrow> None | Some a \<Rightarrow> parse_digits a ys)"
  by (induction xs arbitrary: acc) (simp_all split: option.split)

lemma parse_digits_utoa: "parse_digits 0 (utoa n) = Some n"
proof (induction n rule: utoa.induct)
  case (1 n)
  show ?case
  proof (cases "n < 10")
    case True
    then show ?thesis
      by (simp add: utoa.simps [of n] digit_val_digit_char)
  next
    case False
    with 1 have "parse_digits 0 (utoa (n div 10)) = Some (n div 10)" by simp
    with False show ?thesis
      by (simp add: utoa.simps [of n] parse_digits_append digit_val_digit_char)
  qed
qed

lemma utoa_digits: "c \<in> set (utoa n) \<Longrightarrow> digit_val c \<noteq> None"
proof (induction n rule: utoa.induct)
  case (1 n)
  show ?case
  proof (cases "n < 10")
    case True
    with 1 show ?thesis
      by (simp add: utoa.simps [of n] digit_val_digit_char)
  next
    case False
    with 1 show ?thesis
      by (auto simp add: utoa.simps [of n] digit_val_digit_char)
  qed
qed

lemma utoa_nonempty: "utoa n \<noteq> []"
  by (simp add: utoa.simps [of n])

lemma digit_not_sign: "digit_val c \<noteq> None \<Longrightarrow> c \<noteq> CHR ''-'' \<and> c \<noteq> CHR ''+''"
  by (auto simp: digit_val_def)

lemma Atoi_Itoa:
  assumes "- (2 ^ 63) \<le> i" and "i < 2 ^ 63"
  shows "Atoi (Itoa i) = Some i"
proof -
  obtain c cs where u: "utoa (nat \<bar>i\<bar>) = c # cs"
    using utoa_nonempty [of "nat \<bar>i\<bar>"] by (cases "utoa (nat \<bar>i\<bar>)") auto
  then have "c \<in> set (utoa (nat \<bar>i\<bar>))" by simp
  then have c: "c \<noteq> CHR ''-''" "c \<noteq> CHR ''+''"
    using utoa_digits digit_not_sign by blast+
  have p: "parse_digits 0 (c # cs) = Some (nat \<bar>i\<bar>)"
    using parse_digits_utoa [of "nat \<bar>i\<bar>"] by (simp only: u)
  show ?thesis
  proof (cases "i < 0")
    case True
    then have "Itoa i = CHR ''-'' # c # cs"
      using u by (simp add: Itoa_def abs_if)
    moreover from True assms have "\<not> nat \<bar>i\<bar> > 2 ^ 63" by simp
    ultimately show ?thesis
      using p True by (simp add: Atoi_def del: parse_digits.simps)
  next
    case False
    then have "Itoa i = c # cs"
      using u by (simp add: Itoa_def abs_if)
    moreover from False assms have "\<not> nat \<bar>i\<bar> \<ge> 2 ^ 63" by simp
    ultimately show ?thesis
      using p c False by (simp add: Atoi_def del: parse_digits.simps)
  qed
qed



lemma find_space_rune_rev:
  assumes "r \<in> set (map rev space_runes)"
  shows "List.find (\<lambda>r'. r' \<noteq> [] \<and> prefix r' (r @ t)) (map rev space_runes) = Some r"
proof -
  from assms obtain r0 where "r0 \<in> set space_runes" and "r = rev r0"
    by auto
  then show ?thesis
    unfolding space_runes_cases by (elim disjE) (simp_all add: space_runes_def)
qed

lemma trim_runes_pads:
  assumes tab: "\<And>r t. r \<in> set T \<Longrightarrow> List.find (\<lambda>r'. r' \<noteq> [] \<and> prefix r' (r @ t)) T = Some r"
    and "set rs \<subseteq> set T"
  shows "trim_runes T (concat rs @ t) = trim_runes T t"
  using assms(2)
proof (induction rs)
  case Nil
  show ?case by simp
next
  case (Cons r rs)
  then have "r \<in> set T" and rest: "set rs \<subseteq> set T"
    by simp_all
  from tab [OF this(1), of "concat rs @ t"]
  have "trim_runes T (r @ concat rs @ t) = trim_runes T (concat rs @ t)"
    by (subst trim_runes.simps) simp
  with Cons.IH [OF rest] show ?case
    by simp
qed

lemma trim_runes_stop:
  "\<forall>r\<in>set T. \<not> (r \<noteq> [] \<and> prefix r s) \<Longrightarrow> trim_runes T s = s"
  by (subst trim_runes.simps) (simp add: find_None_iff [THEN iffD2])

lemma no_space_prefix:
  assumes "digit_val c \<noteq> None \<or> c = CHR ''-''"
  shows "\<forall>r\<in>set space_runes. \<not> (r \<noteq> [] \<and> prefix r (c # cs))"
proof
  fix r
  assume "r \<in> set space_runes"
  from rune_ends [OF this] obtain a as where "r = a # as"
    and "digit_val a = None" and "a \<noteq> CHR ''-''"
    by (cases r) auto
  with assms show "\<not> (r \<noteq> [] \<and> prefix r (c # cs))"
    by auto
qed

lemma no_space_prefix_rev:
  assumes "digit_val c \<noteq> None"
  shows "\<forall>r\<in>set (map rev space_runes). \<not> (r \<noteq> [] \<and> prefix r (c # cs))"
proof
  fix r
  assume "r \<in> set (map rev space_runes)"
  then obtain r0 where r0: "r0 \<in> set space_runes" and r: "r = rev r0"
    by auto
  from rune_ends [OF r0] have ne: "r0 \<noteq> []" and "digit_val (last r0) = None"
    by simp_all
  with assms have "hd r \<noteq> c"
    by (auto simp: r hd_rev)
  with ne show "\<not> (r \<noteq> [] \<and> prefix r (c # cs))"
    by (cases r) (auto simp: r)
qed

lemma TrimSpace_pads:
  assumes "set rs1 \<subseteq> set space_runes" and "set rs2 \<subseteq> set space_runes"
    and "body \<noteq> []"
    and "digit_val (hd body) \<noteq> None \<or> hd body = CHR ''-''"
    and "digit_val (last body) \<noteq> None"
  shows "TrimSpace (concat rs1 @ body @ concat rs2) = body"
proof -
  obtain c cs where b: "body = c # cs"
    using assms(3) by (cases body) auto
  obtain c' cs' where rb: "rev body = c' # cs'" and c': "c' = last body"
    using assms(3) by (cases "rev body") (auto simp: last_rev [symmetric] simp del: last_rev)
  have "trim_runes space_runes (concat rs1 @ body @ concat rs2) =
      trim_runes space_runes (body @ concat rs2)"
    using find_space_rune assms(1) by (rule trim_runes_pads)
  also have "\<dots> = body @ concat rs2"
    using no_space_prefix [of c "cs @ concat rs2"] assms(4)
    by (intro trim_runes_stop) (simp add: b)
  finally have left: "trim_runes space_runes (concat rs1 @ body @ concat rs2) = body @ concat rs2" .
  have sub: "set (map rev (rev rs2)) \<subseteq> set (map rev space_runes)"
    using assms(2) by auto
  have "rev (body @ concat rs2) = concat (map rev (rev rs2)) @ rev body"
    by (simp add: rev_concat)
  then have "trim_runes (map rev space_runes) (rev (body @ concat rs2)) =
      trim_runes (map rev space_runes) (rev body)"
    using trim_runes_pads [of "map rev space_runes" "map rev (rev rs2)" "rev body",
        OF find_space_rune_rev sub]
    by simp
  also have "\<dots> = rev body"
    using no_space_prefix_rev [of c' cs'] assms(5)
    by (intro trim_runes_stop) (simp add: rb c')
  finally show ?thesis
    by (simp add: TrimSpace_def left)
qed

lemma Itoa_shape:
  "Itoa i \<noteq> [] \<and> (digit_val (hd (Itoa i)) \<noteq> None \<or> hd (Itoa i) = CHR ''-'') \<and>
   digit_val (last (Itoa i)) \<noteq> None"
proof -
  have ne: "utoa n \<noteq> []" for n by (rule utoa_nonempty)
  have "hd (utoa n) \<in> set (utoa n)" and "last (utoa n) \<in> set (utoa n)" for n
    using ne [of n] by simp_all
  then have "digit_val (hd (utoa n)) \<noteq> None" and "digit_val (last (utoa n)) \<noteq> None" for n
    using utoa_digits by blast+
  then show ?thesis
    using ne by (simp add: Itoa_def)
qed

lemma load_padded:
  assumes "set rs1 \<subseteq> set space_runes" and "set rs2 \<subseteq> set space_runes"
    and "- (2 ^ 63) \<le> i" and "i < 2 ^ 63"
    and "content d = Some (concat rs1 @ Itoa i @ concat rs2)"
  shows "loadHighScore d = (if i < 0 then 0 else i)"
proof -
  have "TrimSpace (concat rs1 @ Itoa i @ concat rs2) = Itoa i"
    using assms(1,2) Itoa_shape [of i] by (intro TrimSpace_pads) simp_all
  then show ?thesis
    using Atoi_Itoa [OF assms(3,4)] assms(5) by (simp add: loadHighScore_def)
qed

subsection \<open>Saving and loading\<close>

text \<open>
  Claim C9. For every \<open>n\<close> from 0 up to the largest \<open>int\<close>, loading after a successful save of
  \<open>n\<close> yields \<open>n\<close>, and a program started then has \<open>n\<close> as its high score. Loading yields 0 when the file cannot be read, when its trimmed content
  does not parse, and when it parses to a negative integer. Load trims before it parses: white
  space around the decimal text of an integer, in any number of code points on either side,
  does not change the result. The loaded value is never negative.
\<close>

theorem high_score_round_trip:
  "(writable d \<and> 0 \<le> n \<and> n < 2 ^ 63 \<longrightarrow>
      loadHighScore (saveHighScore d n) = n \<and>
      highScore (initialModel (saveHighScore d n)) = n) \<and>
   (content d = None \<longrightarrow> loadHighScore d = 0) \<and>
   (content d = Some s \<and> Atoi (TrimSpace s) = None \<longrightarrow> loadHighScore d = 0) \<and>
   (content d = Some s \<and> Atoi (TrimSpace s) = Some v \<and> v < 0 \<longrightarrow> loadHighScore d = 0) \<and>
   (set rs1 \<subseteq> set space_runes \<and> set rs2 \<subseteq> set space_runes \<and>
    - (2 ^ 63) \<le> i \<and> i < 2 ^ 63 \<and>
    content d = Some (concat rs1 @ Itoa i @ concat rs2) \<longrightarrow>
      loadHighScore d = (if i < 0 then 0 else i)) \<and>
   0 \<le> loadHighScore d"
proof (intro conjI impI)
  assume h: "writable d \<and> 0 \<le> n \<and> n < 2 ^ 63"
  then have "content (saveHighScore d n) = Some (concat [] @ Itoa n @ concat [])"
    by (simp add: saveHighScore_def)
  from load_padded [OF _ _ _ _ this] h have loaded: "loadHighScore (saveHighScore d n) = n"
    by simp
  then show "loadHighScore (saveHighScore d n) = n" .
  from loaded show "highScore (initialModel (saveHighScore d n)) = n"
    by (simp add: initialModel_def)
next
  assume "content d = None"
  then show "loadHighScore d = 0"
    by (simp add: loadHighScore_def)
next
  assume "content d = Some s \<and> Atoi (TrimSpace s) = None"
  then show "loadHighScore d = 0"
    by (simp add: loadHighScore_def)
next
  assume "content d = Some s \<and> Atoi (TrimSpace s) = Some v \<and> v < 0"
  then show "loadHighScore d = 0"
    by (simp add: loadHighScore_def)
next
  assume "set rs1 \<subseteq> set space_runes \<and> set rs2 \<subseteq> set space_runes \<and>
    - (2 ^ 63) \<le> i \<and> i < 2 ^ 63 \<and> content d = Some (concat rs1 @ Itoa i @ concat rs2)"
  then show "loadHighScore d = (if i < 0 then 0 else i)"
    using load_padded [of rs1 rs2 i d] by blast
next
  show "0 \<le> loadHighScore d"
    by (simp add: loadHighScore_def split: option.split)
qed

theorem high_score_round_trip_witness:
  "writable d0 \<and> loadHighScore (saveHighScore d0 1203) = 1203 \<and>
   content (saveHighScore d0 1203) = Some ''1203'' \<and>
   loadHighScore (d0\<lparr>content := None\<rparr>) = 0 \<and>
   Atoi (TrimSpace ''12a'') = None \<and> loadHighScore (d0\<lparr>content := Some ''12a''\<rparr>) = 0 \<and>
   Atoi (TrimSpace ''-7'') = Some (- 7) \<and> loadHighScore (d0\<lparr>content := Some ''-7''\<rparr>) = 0 \<and>
   loadHighScore (d0\<lparr>content := Some ([CHR 0x20, CHR 0xC2, CHR 0xA0] @ ''42'' @ [CHR 0x0D, CHR 0x0A])\<rparr>) = 42"
proof -
  have w: "writable d0"
    by (simp add: d0_def)
  have a: "Atoi (TrimSpace ''12a'') = None"
    by (simp add: TrimSpace_def trim_runes.simps space_runes_def Atoi_def digit_val_def)
  have b: "Atoi (TrimSpace ''-7'') = Some (- 7)"
    by (simp add: TrimSpace_def trim_runes.simps space_runes_def Atoi_def digit_val_def)
  have i: "Itoa 42 = ''42''" and j: "Itoa 1203 = ''1203''"
    by (simp_all add: Itoa_def utoa.simps digit_char_def)
  have r: "set [[CHR 0x20], [CHR 0xC2, CHR 0xA0]] \<subseteq> set space_runes"
    "set [[CHR 0x0D], [CHR 0x0A]] \<subseteq> set space_runes"
    by (simp_all add: space_runes_def)
  have c: "content (d0\<lparr>content := Some ([CHR 0x20, CHR 0xC2, CHR 0xA0] @ ''42'' @ [CHR 0x0D, CHR 0x0A])\<rparr>) =
      Some (concat [[CHR 0x20], [CHR 0xC2, CHR 0xA0]] @ Itoa 42 @ concat [[CHR 0x0D], [CHR 0x0A]])"
    by (simp add: i)
  have "loadHighScore (saveHighScore d0 1203) = 1203"
    using high_score_round_trip [of d0 1203] w by simp
  moreover have "loadHighScore (d0\<lparr>content := None\<rparr>) = 0"
    using high_score_round_trip [of "d0\<lparr>content := None\<rparr>"] by simp
  moreover have "loadHighScore (d0\<lparr>content := Some ''12a''\<rparr>) = 0"
    using high_score_round_trip [of "d0\<lparr>content := Some ''12a''\<rparr>" _ "''12a''"] a by simp
  moreover have "loadHighScore (d0\<lparr>content := Some ''-7''\<rparr>) = 0"
    using high_score_round_trip [of "d0\<lparr>content := Some ''-7''\<rparr>" _ "''-7''" "- 7"] b by simp
  moreover have "loadHighScore (d0\<lparr>content := Some ([CHR 0x20, CHR 0xC2, CHR 0xA0] @ ''42'' @ [CHR 0x0D, CHR 0x0A])\<rparr>) = 42"
    using high_score_round_trip [of _ _ _ _ "[[CHR 0x20], [CHR 0xC2, CHR 0xA0]]"
        "[[CHR 0x0D], [CHR 0x0A]]" 42, THEN conjunct2, THEN conjunct2, THEN conjunct2,
        THEN conjunct2, THEN conjunct1, rule_format, OF conjI [OF r(1) conjI [OF r(2) conjI [OF _ conjI [OF _ c]]]]]
    by simp
  moreover have "content (saveHighScore d0 1203) = Some ''1203''"
    by (simp add: saveHighScore_def d0_def j)
  ultimately show ?thesis
    using w a b by simp
qed

end
